theory Spec2Isabelle
  imports
    Complex_Main
    "HOL-Library.Char_ord"
    "HOL-Library.List_Lexorder"
    "HOL-Library.Sublist"
    "HOL-Library.Multiset"
begin

section \<open>Data model (types.ts, cache.ts)\<close>

text \<open>
  The modules are named as the import statements name them. The type declarations
  (types.ts) and the historical service (historical.ts) are in src/localization.ts, the
  manager in src/providers/manager.ts, the entry points in src/index.ts, the file helpers
  in src/utils.ts.

  The supported currency codes and the rate table. A table maps a currency to the number of
  units of that currency that one Somali Shilling buys. At run time a table is a plain object,
  so a key may be missing: a lookup then yields \<open>undefined\<close>, modelled by \<open>None\<close>.
\<close>

datatype ISO4217 = SOS | USD | EUR | GBP | KES | ETB | AED | SAR | TRY | CNY

type_synonym RateTable = "ISO4217 \<rightharpoonup> real"

text \<open>
  A JavaScript number is idealised as a real. \<open>None\<close> stands for a value that is not a finite
  number (\<open>undefined\<close> read from a table, \<open>NaN\<close>, or an infinity produced by a division by
  zero). Every arithmetic operation of the functions modelled below maps a non-finite operand
  to a non-finite result, so the lifted operations propagate \<open>None\<close>. The operations
  \<open>nadd\<close>, \<open>nsub\<close>, \<open>nmul\<close>, \<open>ndiv\<close> and \<open>nsqrt\<close> are exact; the operations on IEEE
  doubles, which round and overflow, follow them.
\<close>

type_synonym number = "real option"

definition nadd :: "number \<Rightarrow> number \<Rightarrow> number" where
  "nadd a b = (case (a, b) of (Some x, Some y) \<Rightarrow> Some (x + y) | _ \<Rightarrow> None)"

definition nsub :: "number \<Rightarrow> number \<Rightarrow> number" where
  "nsub a b = (case (a, b) of (Some x, Some y) \<Rightarrow> Some (x - y) | _ \<Rightarrow> None)"

definition nmul :: "number \<Rightarrow> number \<Rightarrow> number" where
  "nmul a b = (case (a, b) of (Some x, Some y) \<Rightarrow> Some (x * y) | _ \<Rightarrow> None)"

definition ndiv :: "number \<Rightarrow> number \<Rightarrow> number" where
  "ndiv a b = (case (a, b) of
     (Some x, Some y) \<Rightarrow> if y = 0 then None else Some (x / y)
   | _ \<Rightarrow> None)"

definition nsqrt :: "number \<Rightarrow> number" where
  "nsqrt a = (case a of Some x \<Rightarrow> if x < 0 then None else Some (sqrt x) | None \<Rightarrow> None)"

text \<open>
  IEEE 754 double precision, round to nearest, ties to even. The doubles near \<open>x\<close> are the
  multiples of \<open>ulp x\<close>: 53 significant bits from the exponent \<open>-1022\<close> on, and the fixed
  spacing \<open>2\<^sup>-\<^sup>1\<^sup>0\<^sup>7\<^sup>4\<close> of the subnormal numbers below it. An operation yields the double
  nearest to its exact result, and an infinity when that is \<open>2\<^sup>1\<^sup>0\<^sup>2\<^sup>4\<close> or more in magnitude.
  The sign of a zero is not kept: it only decides the sign of an infinity.
\<close>

definition expo :: "real \<Rightarrow> int" where
  "expo x = max \<lfloor>log 2 \<bar>x\<bar>\<rfloor> (- 1022)"

definition ulp :: "real \<Rightarrow> real" where
  "ulp x = 2 powr of_int (expo x - 52)"

definition roundEven :: "real \<Rightarrow> int" where
  "roundEven r =
     (let f = \<lfloor>r\<rfloor> in
      if r - of_int f < 1 / 2 then f
      else if 1 / 2 < r - of_int f then f + 1
      else if even f then f else f + 1)"

definition nearest :: "real \<Rightarrow> real" where
  "nearest x = of_int (roundEven (x / ulp x)) * ulp x"

definition fl :: "real \<Rightarrow> number" where
  "fl x = (if x = 0 then Some 0
           else if 2 ^ 1024 \<le> \<bar>nearest x\<bar> then None
           else Some (nearest x))"

definition dmul :: "number \<Rightarrow> number \<Rightarrow> number" where
  "dmul a b = (case (a, b) of (Some x, Some y) \<Rightarrow> fl (x * y) | _ \<Rightarrow> None)"

definition ddiv :: "number \<Rightarrow> number \<Rightarrow> number" where
  "ddiv a b = (case (a, b) of
     (Some x, Some y) \<Rightarrow> if y = 0 then None else fl (x / y)
   | _ \<Rightarrow> None)"

text \<open>The snapshot kept by the current-rate cache: capture time in milliseconds (the field
  \<open>at\<close> of the source) and table.\<close>

record Cached =
  capturedAt :: int
  rates :: RateTable

text \<open>
  A provider call settles as a table or as a rejection with a message. A provider is a
  name, an optional priority, and its two capabilities. The network behind a provider is a
  script: \<open>fetchRatesSOS p k\<close> is the latency in milliseconds and the settlement of the call
  made after \<open>k\<close> earlier current-rate calls to the provider of that name; the optional
  \<open>fetchHistoricalRates\<close> is scripted per date in the same way.
\<close>

datatype outcome = Resolves RateTable | Rejects string

record Provider =
  name :: string
  priority :: "int option"
  fetchRatesSOS :: "nat \<Rightarrow> nat \<times> outcome"
  fetchHistoricalRates :: "(string \<Rightarrow> nat \<Rightarrow> outcome) option"

record ProviderConfig =
  primary :: Provider
  fallbacks :: "Provider list"
  timeout :: nat
  maxRetries :: nat

datatype error =
    ProviderError string
  | ProviderTimeout string nat
  | AllProvidersFailed "error option"
  | AllHistoricalFailed "error option"
  | InvalidDate

text \<open>
  Everything a provider manager does to the outside is recorded in a trace: a current-rate
  call to a named provider, a backoff pause of so many milliseconds, a historical call to a
  named provider for a date.
\<close>

datatype event =
    Attempt string
  | Backoff nat
  | HistoricalAttempt string string

section \<open>Provider manager (providers/manager.ts, providers/exchangeratehost.ts)\<close>

definition callProvider :: "Provider \<Rightarrow> event list \<Rightarrow> (nat \<times> outcome) \<times> event list" where
  "callProvider provider tr =
     (fetchRatesSOS provider (count_list tr (Attempt (name provider))),
      tr @ [Attempt (name provider)])"

text \<open>
  \<open>fetchWithTimeout\<close> races the provider call against a timer: a call that settles before the
  timer fires wins, otherwise the attempt is rejected with the timeout error.
\<close>

definition settle :: "Provider \<Rightarrow> nat \<Rightarrow> nat \<times> outcome \<Rightarrow> error + RateTable" where
  "settle provider tmo response =
     (case response of (latency, out) \<Rightarrow>
        if latency < tmo
        then (case out of Resolves r \<Rightarrow> Inr r | Rejects msg \<Rightarrow> Inl (ProviderError msg))
        else Inl (ProviderTimeout (name provider) tmo))"

definition fetchWithTimeout ::
  "Provider \<Rightarrow> nat \<Rightarrow> event list \<Rightarrow> (error + RateTable) \<times> event list" where
  "fetchWithTimeout provider tmo tr =
     (case callProvider provider tr of (response, tr') \<Rightarrow> (settle provider tmo response, tr'))"

text \<open>
  The inner loop of \<open>fetchRates\<close>: \<open>for (attempt = 1; attempt <= maxRetries; attempt++)\<close>.
  It ends with \<open>Inr rates\<close> when an attempt succeeded (the function returns) and with
  \<open>Inl lastError\<close> when the attempts on this provider are used up.
\<close>

function attemptLoop ::
  "ProviderConfig \<Rightarrow> Provider \<Rightarrow> nat \<Rightarrow> error option \<Rightarrow> event list
     \<Rightarrow> (error option + RateTable) \<times> event list" where
  "attemptLoop config provider attempt lastError tr =
     (if attempt \<le> maxRetries config
      then (case fetchWithTimeout provider (timeout config) tr of
              (Inr r, tr') \<Rightarrow> (Inr r, tr')
            | (Inl e, tr') \<Rightarrow>
                attemptLoop config provider (attempt + 1) (Some e)
                  (if attempt < maxRetries config
                   then tr' @ [Backoff (2 ^ (attempt - 1) * 1000)]
                   else tr'))
      else (Inl lastError, tr))"
  by pat_completeness auto
termination
  by (relation "measure (\<lambda>(config, provider, attempt, lastError, tr).
        maxRetries config + 1 - attempt)") auto

fun providerLoop ::
  "ProviderConfig \<Rightarrow> Provider list \<Rightarrow> error option \<Rightarrow> event list
     \<Rightarrow> (error + RateTable) \<times> event list" where
  "providerLoop config [] lastError tr = (Inl (AllProvidersFailed lastError), tr)"
| "providerLoop config (provider # providers) lastError tr =
     (case attemptLoop config provider 1 lastError tr of
        (Inr r, tr') \<Rightarrow> (Inr r, tr')
      | (Inl lastError', tr') \<Rightarrow> providerLoop config providers lastError' tr')"

definition fetchRates :: "ProviderConfig \<Rightarrow> event list \<Rightarrow> (error + RateTable) \<times> event list" where
  "fetchRates config tr = providerLoop config (primary config # fallbacks config) None tr"

text \<open>
  \<open>ProviderManager.fetchHistoricalRates\<close>: the providers that have the historical capability,
  in order, one call each, first success wins.
\<close>

fun historicalLoop ::
  "string \<Rightarrow> Provider list \<Rightarrow> error option \<Rightarrow> event list
     \<Rightarrow> (error + RateTable) \<times> event list" where
  "historicalLoop date [] lastError tr = (Inl (AllHistoricalFailed lastError), tr)"
| "historicalLoop date (provider # providers) lastError tr =
     (case fetchHistoricalRates provider of
        None \<Rightarrow> historicalLoop date providers lastError tr
      | Some fetch \<Rightarrow>
          (case fetch date (count_list tr (HistoricalAttempt (name provider) date)) of
             Resolves r \<Rightarrow> (Inr r, tr @ [HistoricalAttempt (name provider) date])
           | Rejects msg \<Rightarrow>
               historicalLoop date providers (Some (ProviderError msg))
                 (tr @ [HistoricalAttempt (name provider) date])))"

definition managerFetchHistoricalRates ::
  "ProviderConfig \<Rightarrow> string \<Rightarrow> event list \<Rightarrow> (error + RateTable) \<times> event list" where
  "managerFetchHistoricalRates config date tr =
     historicalLoop date
       (filter (\<lambda>p. fetchHistoricalRates p \<noteq> None) (primary config # fallbacks config))
       None tr"

text \<open>
  \<open>addFallbackProvider\<close>: push, then sort with the comparator
  \<open>(a.priority || 999) - (b.priority || 999)\<close>. The operator \<open>||\<close> takes its right operand
  when the left one is \<open>undefined\<close> or \<open>0\<close>. The sort of the platform is stable.
\<close>

definition sortKey :: "Provider \<Rightarrow> int" where
  "sortKey p = (case priority p of None \<Rightarrow> 999 | Some n \<Rightarrow> if n = 0 then 999 else n)"

definition addFallbackProvider :: "Provider \<Rightarrow> ProviderConfig \<Rightarrow> ProviderConfig" where
  "addFallbackProvider provider config =
     config\<lparr>fallbacks := sort_key sortKey (fallbacks config @ [provider])\<rparr>"

text \<open>
  The default provider has a name and the current-rate capability only; its network
  behaviour is a parameter. The manager's constructor defaults follow.
\<close>

definition ExchangerateHostProvider :: "(nat \<Rightarrow> nat \<times> outcome) \<Rightarrow> Provider" where
  "ExchangerateHostProvider net =
     \<lparr>name = ''exchangerate.host'', priority = None, fetchRatesSOS = net,
      fetchHistoricalRates = None\<rparr>"

definition defaultProviderManager :: "(nat \<Rightarrow> nat \<times> outcome) \<Rightarrow> ProviderConfig" where
  "defaultProviderManager net =
     \<lparr>primary = ExchangerateHostProvider net, fallbacks = [], timeout = 10000, maxRetries = 3\<rparr>"

section \<open>The world outside the program\<close>

text \<open>
  A \<open>Date\<close> is an instant: milliseconds since 1970-01-01T00:00Z. The time zone of the process
  is its standard offset from UTC and the periods, as pairs of instants, in which daylight
  saving time puts local time one hour further ahead. \<open>utcOffset\<close> is the offset in force at
  an instant; \<open>localOffset\<close> is the offset by which a local wall-clock time is read back as an
  instant, a skipped or repeated wall-clock time being read with the offset in force before
  the shift. \<open>addLocalDays z k\<close> is \<open>d.setDate(d.getDate() + k)\<close>: the date is moved by \<open>k\<close>
  days in local time, at the same local time of day.
\<close>

definition msPerDay :: int where
  "msPerDay = 86400000"

definition msPerHour :: int where
  "msPerHour = 3600000"

record zone =
  standardOffset :: int
  dstPeriods :: "(int \<times> int) list"

definition inDst :: "zone \<Rightarrow> int \<Rightarrow> bool" where
  "inDst z t = list_ex (\<lambda>(start, until). start \<le> t \<and> t < until) (dstPeriods z)"

definition utcOffset :: "zone \<Rightarrow> int \<Rightarrow> int" where
  "utcOffset z t = standardOffset z + (if inDst z t then msPerHour else 0)"

definition localOffset :: "zone \<Rightarrow> int \<Rightarrow> int" where
  "localOffset z l =
     standardOffset z + (if inDst z (l - standardOffset z - msPerHour) then msPerHour else 0)"

definition addLocalDays :: "zone \<Rightarrow> int \<Rightarrow> int \<Rightarrow> int" where
  "addLocalDays z k t =
     (let local = t + utcOffset z t + k * msPerDay in local - localOffset z local)"

text \<open>
  The state that the functions below read and change: the trace of provider activity, the
  system clock (a script of successive readings of \<open>Date.now()\<close> or \<open>new Date()\<close>, and the
  number of readings taken so far), the time zone of the process, the in-process snapshot,
  the persisted snapshot files by path, the persisted historical cache file, and whether
  writing a file succeeds. A file that is missing, unreadable or not parseable reads as
  \<open>None\<close>.
\<close>

record world =
  trace :: "event list"
  clock :: "nat \<Rightarrow> int"
  ticks :: nat
  zone :: zone
  memoryCache :: "Cached option"
  files :: "string \<rightharpoonup> Cached"
  historicalFile :: "(string \<rightharpoonup> RateTable) option"
  writable :: bool

definition Date_now :: "world \<Rightarrow> int \<times> world" where
  "Date_now w = (clock w (ticks w), w\<lparr>ticks := Suc (ticks w)\<rparr>)"

subsection \<open>utils.ts, cache.ts\<close>

definition tryReadJSON :: "string \<Rightarrow> world \<Rightarrow> Cached option" where
  "tryReadJSON p w = files w p"

definition tryWriteJSON :: "string \<Rightarrow> Cached \<Rightarrow> world \<Rightarrow> world" where
  "tryWriteJSON p data w = (if writable w then w\<lparr>files := (files w)(p \<mapsto> data)\<rparr> else w)"

definition tryReadJSON_historical :: "world \<Rightarrow> (string \<rightharpoonup> RateTable) option" where
  "tryReadJSON_historical w = historicalFile w"

definition tryWriteJSON_historical :: "(string \<rightharpoonup> RateTable) \<Rightarrow> world \<Rightarrow> world" where
  "tryWriteJSON_historical data w = (if writable w then w\<lparr>historicalFile := Some data\<rparr> else w)"

definition getMemoryCache :: "world \<Rightarrow> Cached option" where
  "getMemoryCache w = memoryCache w"

definition setMemoryCache :: "Cached \<Rightarrow> world \<Rightarrow> world" where
  "setMemoryCache c w = w\<lparr>memoryCache := Some c\<rparr>"

section \<open>Current rates and conversion (index.ts)\<close>

text \<open>
  The options of a query with their defaults resolved. An empty \<open>persistPath\<close> is falsy and
  switches the persisted tier off. The bundled seed table (data/seed.json) is a parameter
  of \<open>getRates\<close>.
\<close>

record GetRateOptions =
  provider :: Provider
  ttlMs :: int
  persistPath :: string
  offline :: bool

definition defaultOptions :: "(nat \<Rightarrow> nat \<times> outcome) \<Rightarrow> GetRateOptions" where
  "defaultOptions net =
     \<lparr>provider = ExchangerateHostProvider net, ttlMs = 1000 * 60 * 60 * 6,
      persistPath = ''~/.sosx/cache.json'', offline = False\<rparr>"

definition readCache :: "string \<Rightarrow> world \<Rightarrow> Cached option" where
  "readCache path w =
     (case getMemoryCache w of
        Some mem \<Rightarrow> Some mem
      | None \<Rightarrow> if path \<noteq> [] then tryReadJSON path w else None)"

definition writeCache :: "Cached \<Rightarrow> string \<Rightarrow> world \<Rightarrow> world" where
  "writeCache c path w =
     (let w' = setMemoryCache c w in if path \<noteq> [] then tryWriteJSON path c w' else w')"

text \<open>\<open>provider.fetchRatesSOS()\<close> awaited directly, without a timer.\<close>

definition invoke :: "Provider \<Rightarrow> world \<Rightarrow> outcome \<times> world" where
  "invoke p w =
     (case callProvider p (trace w) of ((latency, out), tr') \<Rightarrow> (out, w\<lparr>trace := tr'\<rparr>))"

definition getRates :: "RateTable \<Rightarrow> GetRateOptions \<Rightarrow> world \<Rightarrow> RateTable \<times> world" where
  "getRates seed options w =
     (let cached = readCache (persistPath options) w;
          (fresh, w1) =
            (case cached of
               None \<Rightarrow> (False, w)
             | Some c \<Rightarrow> (case Date_now w of (now, w') \<Rightarrow> (now - capturedAt c < ttlMs options, w')))
      in if fresh then (case cached of Some c \<Rightarrow> (rates c, w1) | None \<Rightarrow> (seed, w1))
         else if offline options
         then (case cached of Some c \<Rightarrow> (rates c, w1) | None \<Rightarrow> (seed, w1))
         else (case invoke (provider options) w1 of
                 (Resolves live, w2) \<Rightarrow>
                   (case Date_now w2 of (now, w3) \<Rightarrow>
                      (live, writeCache \<lparr>capturedAt = now, rates = live\<rparr> (persistPath options) w3))
               | (Rejects msg, w2) \<Rightarrow>
                   (case cached of Some c \<Rightarrow> (rates c, w2) | None \<Rightarrow> (seed, w2))))"

definition getRate :: "RateTable \<Rightarrow> ISO4217 \<Rightarrow> GetRateOptions \<Rightarrow> world \<Rightarrow> number \<times> world" where
  "getRate seed target options w =
     (case getRates seed options w of (table, w') \<Rightarrow> (table target, w'))"

text \<open>
  \<open>convert\<close>, transcribed once over a multiplication and a division: the arithmetic once the
  table is at hand, in the order of the source, and the function around it.
\<close>

definition convertBy ::
  "(number \<Rightarrow> number \<Rightarrow> number) \<Rightarrow> (number \<Rightarrow> number \<Rightarrow> number)
     \<Rightarrow> RateTable \<Rightarrow> real \<Rightarrow> ISO4217 \<Rightarrow> ISO4217 \<Rightarrow> number" where
  "convertBy mul dv table amount src dst =
     (if src = SOS then mul (Some amount) (table dst)
      else if dst = SOS then mul (Some amount) (dv (Some 1) (table src))
      else (let inSOS = mul (Some amount) (dv (Some 1) (table src))
            in mul inSOS (table dst)))"

definition convertOn ::
  "(number \<Rightarrow> number \<Rightarrow> number) \<Rightarrow> (number \<Rightarrow> number \<Rightarrow> number)
     \<Rightarrow> RateTable \<Rightarrow> real \<Rightarrow> ISO4217 \<Rightarrow> ISO4217 \<Rightarrow> GetRateOptions \<Rightarrow> world
     \<Rightarrow> number \<times> world" where
  "convertOn mul dv seed amount src dst options w =
     (if src = dst then (Some amount, w)
      else (case getRates seed options w of
              (table, w') \<Rightarrow> (convertBy mul dv table amount src dst, w')))"

text \<open>
  With exact arithmetic \<open>convert\<close> computes what the formulas of its branches denote; with
  the arithmetic of doubles \<open>convert64\<close> computes what the program returns, rounding and
  overflow included.
\<close>

definition convertWith :: "RateTable \<Rightarrow> real \<Rightarrow> ISO4217 \<Rightarrow> ISO4217 \<Rightarrow> number" where
  "convertWith = convertBy nmul ndiv"


definition convertWith64 :: "RateTable \<Rightarrow> real \<Rightarrow> ISO4217 \<Rightarrow> ISO4217 \<Rightarrow> number" where
  "convertWith64 = convertBy dmul ddiv"

definition convert64 ::
  "RateTable \<Rightarrow> real \<Rightarrow> ISO4217 \<Rightarrow> ISO4217 \<Rightarrow> GetRateOptions \<Rightarrow> world \<Rightarrow> number \<times> world" where
  "convert64 = convertOn dmul ddiv"

section \<open>Historical rates (historical.ts)\<close>

subsection \<open>Calendar dates\<close>

text \<open>
  \<open>isoDate\<close> gives the date string of a day, counted from 1970-01-01: the proleptic
  Gregorian date, zero-padded, for the years 0000 to 9999. For an instant \<open>t\<close>,
  \<open>toISOString().split('T')[0]\<close> is the date of the UTC day \<open>t div msPerDay\<close>. A date string
  \<open>YYYY-MM-DD\<close> given to \<open>new Date\<close> is the instant at which that UTC day begins; the options of
  a range query hold the days that their two date strings denote.
\<close>

type_synonym ymd = "int \<times> nat \<times> nat"

definition leap :: "int \<Rightarrow> bool" where
  "leap y = (y mod 4 = 0 \<and> (y mod 100 \<noteq> 0 \<or> y mod 400 = 0))"

definition daysInMonth :: "int \<Rightarrow> nat \<Rightarrow> nat" where
  "daysInMonth y m =
     (if m = 2 then (if leap y then 29 else 28)
      else if m = 4 \<or> m = 6 \<or> m = 9 \<or> m = 11 then 30 else 31)"

fun nextDay :: "ymd \<Rightarrow> ymd" where
  "nextDay (y, m, d) =
     (if d < daysInMonth y m then (y, m, d + 1)
      else if m < 12 then (y, m + 1, 1)
      else (y + 1, 1, 1))"

fun prevDay :: "ymd \<Rightarrow> ymd" where
  "prevDay (y, m, d) =
     (if 1 < d then (y, m, d - 1)
      else if 1 < m then (y, m - 1, daysInMonth y (m - 1))
      else (y - 1, 12, 31))"

fun forward :: "nat \<Rightarrow> ymd \<Rightarrow> ymd" where
  "forward 0 c = c"
| "forward (Suc n) c = forward n (nextDay c)"

fun backward :: "nat \<Rightarrow> ymd \<Rightarrow> ymd" where
  "backward 0 c = c"
| "backward (Suc n) c = backward n (prevDay c)"

definition civil :: "int \<Rightarrow> ymd" where
  "civil day = (if 0 \<le> day then forward (nat day) (1970, 1, 1)
                else backward (nat (- day)) (1970, 1, 1))"

definition digit :: "nat \<Rightarrow> char" where
  "digit n = ''0123456789'' ! (n mod 10)"

definition pad2 :: "nat \<Rightarrow> string" where
  "pad2 n = [digit (n div 10), digit n]"

definition pad4 :: "nat \<Rightarrow> string" where
  "pad4 n = [digit (n div 1000), digit (n div 100), digit (n div 10), digit n]"

definition isoDate :: "int \<Rightarrow> string" where
  "isoDate day = (case civil day of (y, m, d) \<Rightarrow> pad4 (nat y) @ ''-'' @ pad2 m @ ''-'' @ pad2 d)"

definition isoString :: "int \<Rightarrow> string" where
  "isoString t = isoDate (t div msPerDay)"

subsection \<open>HistoricalRateService\<close>

type_synonym HistoricalCache = "string \<rightharpoonup> RateTable"

record HistoricalRateOptions =
  fromDate :: int
  toDate :: int
  currency :: ISO4217
  baseCurrency :: ISO4217

record RatePoint =
  date :: string
  rate :: number

definition getCachedRates :: "world \<Rightarrow> HistoricalCache" where
  "getCachedRates w = (case tryReadJSON_historical w of Some cached \<Rightarrow> cached | None \<Rightarrow> Map.empty)"

text \<open>
  \<open>cacheRates\<close>: read the file, store the table under the date, drop every key that compares
  below the cutoff string (the UTC date of the instant 90 local days before now), write the
  file.
\<close>

definition cutoffStr :: "zone \<Rightarrow> int \<Rightarrow> string" where
  "cutoffStr z now = isoString (addLocalDays z (- 90) now)"

definition cacheRates :: "string \<Rightarrow> RateTable \<Rightarrow> world \<Rightarrow> world" where
  "cacheRates d r w =
     (let cached = (getCachedRates w)(d \<mapsto> r)
      in case Date_now w of (now, w') \<Rightarrow>
           tryWriteJSON_historical
             (\<lambda>k. if k < cutoffStr (zone w') now then None else cached k) w')"

definition getHistoricalRates ::
  "ProviderConfig \<Rightarrow> string \<Rightarrow> world \<Rightarrow> (error + RateTable) \<times> world" where
  "getHistoricalRates providerManager d w =
     (case getCachedRates w d of
        Some r \<Rightarrow> (Inr r, w)
      | None \<Rightarrow>
          (case managerFetchHistoricalRates providerManager d (trace w) of
             (Inr r, tr') \<Rightarrow> (Inr r, cacheRates d r (w\<lparr>trace := tr'\<rparr>))
           | (Inl e, tr') \<Rightarrow> (Inl e, w\<lparr>trace := tr'\<rparr>)))"

text \<open>
  The loop of \<open>getRateHistory\<close>: \<open>while (currentDate <= endDate)\<close> on instants. Each round
  looks up the UTC date of the current instant and then moves the instant one day ahead in
  local time; a day whose lookup throws is logged and left out. A step in local time is a
  step of 23, 24 or 25 hours, so the loop ends.
\<close>

function historyLoop ::
  "ProviderConfig \<Rightarrow> ISO4217 \<Rightarrow> ISO4217 \<Rightarrow> int \<Rightarrow> int \<Rightarrow> RatePoint list \<Rightarrow> world
     \<Rightarrow> RatePoint list \<times> world" where
  "historyLoop providerManager cur base currentDate endDate results w =
     (if currentDate \<le> endDate
      then (let dateStr = isoString currentDate in
            case getHistoricalRates providerManager dateStr w of
              (Inr r, w') \<Rightarrow>
                historyLoop providerManager cur base (addLocalDays (zone w) 1 currentDate) endDate
                  (results @ [\<lparr>date = dateStr,
                     rate = (if base = SOS then r cur else ndiv (Some 1) (r cur))\<rparr>]) w'
            | (Inl e, w') \<Rightarrow>
                historyLoop providerManager cur base (addLocalDays (zone w) 1 currentDate) endDate
                  results w')
      else (results, w))"
  by pat_completeness auto
termination
  by (relation "measure (\<lambda>(providerManager, cur, base, currentDate, endDate, results, w).
        nat (endDate + 1 - currentDate))")
     (auto simp: addLocalDays_def utcOffset_def localOffset_def msPerDay_def msPerHour_def Let_def)

definition getRateHistory ::
  "ProviderConfig \<Rightarrow> HistoricalRateOptions \<Rightarrow> world \<Rightarrow> RatePoint list \<times> world" where
  "getRateHistory providerManager options w =
     historyLoop providerManager (currency options) (baseCurrency options)
       (fromDate options * msPerDay) (toDate options * msPerDay) [] w"

text \<open>
  The statistics of \<open>getVolatility\<close> over the rates of the history: the loop that collects
  the daily returns, the two \<open>reduce\<close> calls, and the final product.
\<close>

fun dailyReturns :: "number list \<Rightarrow> number list" where
  "dailyReturns (a # b # rest) = ndiv (nsub b a) a # dailyReturns (b # rest)"
| "dailyReturns [a] = []"
| "dailyReturns [] = []"

definition volatilityOf :: "number list \<Rightarrow> number" where
  "volatilityOf history =
     (if length history < 2 then Some 0
      else (let returns = dailyReturns history;
                mean = ndiv (foldl (\<lambda>sum ret. nadd sum ret) (Some 0) returns)
                         (Some (real (length returns)));
                variance = ndiv (foldl (\<lambda>sum ret. nadd sum (nmul (nsub ret mean) (nsub ret mean)))
                                   (Some 0) returns)
                             (Some (real (length returns)))
            in nmul (nsqrt variance) (Some (sqrt 365))))"

text \<open>
  \<open>getVolatility\<close>. The argument \<open>days\<close> is the value of \<open>parseInt(period.replace('d', ''))\<close>,
  \<open>None\<close> when that is \<open>NaN\<close>; the start date is then invalid and formatting it throws. The
  clock is read twice, for the end and for the start of the window; the start is moved back
  in local time, and the range is given by the UTC dates of the two instants.
\<close>

definition getVolatility ::
  "ProviderConfig \<Rightarrow> ISO4217 \<Rightarrow> int option \<Rightarrow> world \<Rightarrow> (error + number) \<times> world" where
  "getVolatility providerManager cur days w =
     (case Date_now w of (endNow, w1) \<Rightarrow>
      case Date_now w1 of (startNow, w2) \<Rightarrow>
        (case days of
           None \<Rightarrow> (Inl InvalidDate, w2)
         | Some n \<Rightarrow>
             (case getRateHistory providerManager
                     \<lparr>fromDate = addLocalDays (zone w2) (- n) startNow div msPerDay,
                      toDate = endNow div msPerDay,
                      currency = cur, baseCurrency = SOS\<rparr> w2 of
                (history, w3) \<Rightarrow> (Inr (volatilityOf (map rate history)), w3))))"

section \<open>Notions used to state the properties\<close>

subsection \<open>Provider manager\<close>

text \<open>
  The result of the \<open>k\<close>-th current-rate call to a provider once raced against the manager's
  timer; the trace of \<open>n\<close> consecutive attempts on one provider, each but the last followed by
  its backoff pause; the pause, if any, that an event of the trace stands for; the trace of
  using up every attempt on each provider of a list.
\<close>

definition attemptResult :: "ProviderConfig \<Rightarrow> Provider \<Rightarrow> nat \<Rightarrow> error + RateTable" where
  "attemptResult config p k = settle p (timeout config) (fetchRatesSOS p k)"

definition backoffs :: "string \<Rightarrow> nat \<Rightarrow> nat \<Rightarrow> event list" where
  "backoffs nm a n = concat (map (\<lambda>i. [Attempt nm, Backoff (2 ^ (i - 1) * 1000)]) [a..<n])"

definition schedule :: "string \<Rightarrow> nat \<Rightarrow> event list" where
  "schedule nm n = (if n = 0 then [] else backoffs nm 1 n @ [Attempt nm])"

fun delayOf :: "event \<Rightarrow> nat list" where
  "delayOf (Backoff d) = [d]"
| "delayOf e = []"

definition exhausted :: "ProviderConfig \<Rightarrow> Provider list \<Rightarrow> event list" where
  "exhausted config ps = concat (map (\<lambda>p. schedule (name p) (maxRetries config)) ps)"

text \<open>
  The order of the fallback list as the specification words it (ascending by priority, a
  provider without priority after every provider that has one), and the key under which the
  list is in fact ordered when no priority is zero.
\<close>

definition absentLast :: "Provider list \<Rightarrow> bool" where
  "absentLast ps = sorted_wrt (\<lambda>a b. case priority b of
        None \<Rightarrow> True
      | Some y \<Rightarrow> (case priority a of None \<Rightarrow> False | Some x \<Rightarrow> x \<le> y)) ps"

definition priorityOr999 :: "Provider \<Rightarrow> int" where
  "priorityOr999 p = (case priority p of None \<Rightarrow> 999 | Some n \<Rightarrow> n)"

definition addAll :: "Provider list \<Rightarrow> ProviderConfig \<Rightarrow> ProviderConfig" where
  "addAll ps config = foldl (\<lambda>c p. addFallbackProvider p c) config ps"

subsection \<open>Current rates\<close>

text \<open>
  The settlement of the next current-rate call to a provider; whether the cache holds nothing
  that is fresh at the next reading of the clock; the fallback table (the cached one if there
  is one, else the seed).
\<close>

definition nextResponse :: "Provider \<Rightarrow> world \<Rightarrow> outcome" where
  "nextResponse p w = snd (fetchRatesSOS p (count_list (trace w) (Attempt (name p))))"

definition stale :: "GetRateOptions \<Rightarrow> world \<Rightarrow> bool" where
  "stale opts w = (case readCache (persistPath opts) w of
      None \<Rightarrow> True
    | Some c \<Rightarrow> \<not> clock w (ticks w) - capturedAt c < ttlMs opts)"

definition cachedOrSeed :: "RateTable \<Rightarrow> GetRateOptions \<Rightarrow> world \<Rightarrow> RateTable" where
  "cachedOrSeed seed opts w = (case readCache (persistPath opts) w of
      None \<Rightarrow> seed
    | Some c \<Rightarrow> rates c)"

text \<open>
  Converting an amount from one currency to another and the result back, each conversion
  with its own call of \<open>convert\<close>, in the arithmetic of doubles. A first conversion that
  does not yield a finite number yields none after the second either.
\<close>

definition roundTrip64 ::
  "RateTable \<Rightarrow> real \<Rightarrow> ISO4217 \<Rightarrow> ISO4217 \<Rightarrow> GetRateOptions \<Rightarrow> world \<Rightarrow> number" where
  "roundTrip64 seed x a b opts w =
     (case convert64 seed x a b opts w of
        (Some y, w') \<Rightarrow> fst (convert64 seed y b a opts w')
      | (None, w') \<Rightarrow> None)"

text \<open>
  Relative error: \<open>closeTo y a e\<close> says that \<open>y\<close> is \<open>a\<close> within the relative error \<open>e\<close>;
  \<open>relErr k\<close> is the relative error that \<open>k\<close> roundings to 53 bits can add up to;
  \<open>magnitude m v\<close> says that \<open>v\<close> lies between \<open>2\<^sup>-\<^sup>m\<close> and \<open>2\<^sup>m\<close> in absolute value.
\<close>

definition relErr :: "nat \<Rightarrow> real" where
  "relErr k = (1 + 1 / 2 ^ 53) ^ k - 1"

definition closeTo :: "real \<Rightarrow> real \<Rightarrow> real \<Rightarrow> bool" where
  "closeTo y a e = (\<bar>y - a\<bar> \<le> e * \<bar>a\<bar>)"

definition magnitude :: "nat \<Rightarrow> real \<Rightarrow> bool" where
  "magnitude m v = (1 / 2 ^ m \<le> \<bar>v\<bar> \<and> \<bar>v\<bar> \<le> 2 ^ m)"

subsection \<open>Historical rates\<close>

text \<open>
  Well-formed calendar dates and their order; the day whose date is the cutoff of the
  retention window (the UTC day of the instant 90 local days before now); a cache without
  the keys below a cutoff; the step that \<open>getRateHistory\<close> is to take for one day of the
  range.
\<close>

definition validDate :: "ymd \<Rightarrow> bool" where
  "validDate c = (case c of (y, m, d) \<Rightarrow> 1 \<le> m \<and> m \<le> 12 \<and> 1 \<le> d \<and> d \<le> daysInMonth y m)"

definition before :: "ymd \<Rightarrow> ymd \<Rightarrow> bool" where
  "before c1 c2 = (case c1 of (y1, m1, d1) \<Rightarrow> case c2 of (y2, m2, d2) \<Rightarrow>
      y1 < y2 \<or> y1 = y2 \<and> (m1 < m2 \<or> m1 = m2 \<and> d1 < d2))"

definition cutoffDay :: "zone \<Rightarrow> int \<Rightarrow> int" where
  "cutoffDay z now = addLocalDays z (- 90) now div msPerDay"

definition pruned :: "string \<Rightarrow> HistoricalCache \<Rightarrow> HistoricalCache" where
  "pruned cutoff cached = (\<lambda>k. if k < cutoff then None else cached k)"

definition visitDay ::
  "ProviderConfig \<Rightarrow> ISO4217 \<Rightarrow> ISO4217 \<Rightarrow> RatePoint list \<times> world \<Rightarrow> int
     \<Rightarrow> RatePoint list \<times> world" where
  "visitDay cfg cur base acc day =
     (case getHistoricalRates cfg (isoDate day) (snd acc) of
        (Inr r, w') \<Rightarrow>
          (fst acc @ [\<lparr>date = isoDate day,
                       rate = (if base = SOS then r cur else ndiv (Some 1) (r cur))\<rparr>], w')
      | (Inl e, w') \<Rightarrow> (fst acc, w'))"

text \<open>
  The daily simple returns of a series of rates; the population standard deviation (the
  squared deviations from the mean divided by their number) and the sample standard
  deviation (divided by their number less one); the history that \<open>getVolatility\<close> asks for
  when the period is \<open>n\<close> days.
\<close>

definition simpleReturns :: "real list \<Rightarrow> real list" where
  "simpleReturns hs = map (\<lambda>(p, q). (q - p) / p) (zip hs (tl hs))"

definition populationSD :: "real list \<Rightarrow> real" where
  "populationSD xs =
     sqrt ((\<Sum>x\<leftarrow>xs. (x - sum_list xs / real (length xs))\<^sup>2) / real (length xs))"

definition sampleSD :: "real list \<Rightarrow> real" where
  "sampleSD xs =
     sqrt ((\<Sum>x\<leftarrow>xs. (x - sum_list xs / real (length xs))\<^sup>2) / (real (length xs) - 1))"

definition volatilityWindow :: "ProviderConfig \<Rightarrow> ISO4217 \<Rightarrow> int \<Rightarrow> world \<Rightarrow> RatePoint list" where
  "volatilityWindow cfg cur n w =
     fst (getRateHistory cfg
       \<lparr>fromDate = addLocalDays (zone w) (- n) (clock w (Suc (ticks w))) div msPerDay,
        toDate = clock w (ticks w) div msPerDay, currency = cur, baseCurrency = SOS\<rparr>
       (w\<lparr>ticks := Suc (Suc (ticks w))\<rparr>))"

subsection \<open>Scripted providers and worlds\<close>

definition scenarioTable :: RateTable where
  "scenarioTable = [SOS \<mapsto> 1, USD \<mapsto> 0.002]"

definition unreachable :: "string \<Rightarrow> Provider" where
  "unreachable nm = \<lparr>name = nm, priority = None,
     fetchRatesSOS = (\<lambda>k. (0, Rejects ''unreachable'')), fetchHistoricalRates = None\<rparr>"

definition steady :: "string \<Rightarrow> RateTable \<Rightarrow> Provider" where
  "steady nm table = \<lparr>name = nm, priority = None,
     fetchRatesSOS = (\<lambda>k. (0, Resolves table)), fetchHistoricalRates = None\<rparr>"

definition flaky :: "string \<Rightarrow> RateTable \<Rightarrow> Provider" where
  "flaky nm table = \<lparr>name = nm, priority = None,
     fetchRatesSOS = (\<lambda>k. if k < 1 then (0, Rejects ''busy'') else (0, Resolves table)),
     fetchHistoricalRates = None\<rparr>"

definition slow :: "string \<Rightarrow> RateTable \<Rightarrow> Provider" where
  "slow nm table = \<lparr>name = nm, priority = None,
     fetchRatesSOS = (\<lambda>k. (20000, Resolves table)), fetchHistoricalRates = None\<rparr>"

definition chain :: "Provider \<Rightarrow> Provider \<Rightarrow> ProviderConfig" where
  "chain p1 p2 = \<lparr>primary = p1, fallbacks = [p2], timeout = 10000, maxRetries = 2\<rparr>"

definition noPriority :: Provider where
  "noPriority = unreachable ''A''"

definition priority1000 :: Provider where
  "priority1000 = (unreachable ''B'')\<lparr>priority := Some 1000\<rparr>"

definition priority2 :: Provider where
  "priority2 = (unreachable ''C'')\<lparr>priority := Some 2\<rparr>"

definition bareConfig :: ProviderConfig where
  "bareConfig = \<lparr>primary = unreachable ''exchangerate.host'', fallbacks = [],
     timeout = 10000, maxRetries = 3\<rparr>"

text \<open>
  A world with nothing cached, whose clock starts on day 100 after the epoch, in a process
  that runs on UTC.
\<close>

definition utcZone :: zone where
  "utcZone = \<lparr>standardOffset = 0, dstPeriods = []\<rparr>"

definition emptyWorld :: world where
  "emptyWorld = \<lparr>trace = [], clock = (\<lambda>n. 100 * msPerDay + int n), ticks = 0,
     zone = utcZone, memoryCache = None, files = Map.empty, historicalFile = None,
     writable = True\<rparr>"

text \<open>
  The table of the test suite's mock provider stands in for the bundled seed table; query
  options with a five-second freshness window; a world whose persisted snapshot was captured
  \<open>age\<close> milliseconds before the clock's first reading.
\<close>

definition seedFixture :: RateTable where
  "seedFixture = [SOS \<mapsto> 1, USD \<mapsto> 0.00175, EUR \<mapsto> 0.0016, GBP \<mapsto> 0.00135,
     KES \<mapsto> 0.225, ETB \<mapsto> 0.102, AED \<mapsto> 0.0064, SAR \<mapsto> 0.0066, TRY \<mapsto> 0.056,
     CNY \<mapsto> 0.012]"

definition optionsWith :: "Provider \<Rightarrow> bool \<Rightarrow> GetRateOptions" where
  "optionsWith p off = \<lparr>provider = p, ttlMs = 5000, persistPath = ''cache.json'', offline = off\<rparr>"

definition cachedWorld :: "int \<Rightarrow> world" where
  "cachedWorld age = emptyWorld\<lparr>files := [''cache.json'' \<mapsto>
      \<lparr>capturedAt = 100 * msPerDay - age, rates = scenarioTable\<rparr>]\<rparr>"

text \<open>
  A world on day 100 (1970-04-11) whose historical cache file holds three dates: one older
  than the cutoff 1970-01-11, and the days 99 and 101.
\<close>

definition historyWorld :: world where
  "historyWorld = emptyWorld\<lparr>historicalFile := Some
     [''1970-01-05'' \<mapsto> seedFixture, ''1970-04-10'' \<mapsto> seedFixture,
      ''1970-04-12'' \<mapsto> scenarioTable]\<rparr>"

text \<open>
  A world on day 100 whose historical cache holds the rate of the US dollar for the days 98,
  99 and 100: 1, 1 and 2.
\<close>

definition priceWorld :: world where
  "priceWorld = emptyWorld\<lparr>historicalFile := Some
     [''1970-04-09'' \<mapsto> [USD \<mapsto> 1], ''1970-04-10'' \<mapsto> [USD \<mapsto> 1],
      ''1970-04-11'' \<mapsto> [USD \<mapsto> 2]]\<rparr>"

text \<open>
  America/New_York in 1970: five hours behind UTC, and four hours behind from 1970-04-26
  02:00 local time (07:00 UTC on day 115) to 1970-10-25 02:00 local time (06:00 UTC on day
  297). A world in that zone, on day 120 (1970-05-01), whose historical cache holds the rate
  of the US dollar for the four days from 1970-04-25 to 1970-04-28.
\<close>

definition newYork1970 :: zone where
  "newYork1970 = \<lparr>standardOffset = - 5 * msPerHour,
     dstPeriods = [(115 * msPerDay + 7 * msPerHour, 297 * msPerDay + 6 * msPerHour)]\<rparr>"

definition nyWorld :: world where
  "nyWorld = emptyWorld\<lparr>clock := (\<lambda>n. 120 * msPerDay + int n), zone := newYork1970,
     historicalFile := Some
     [''1970-04-25'' \<mapsto> [USD \<mapsto> 1], ''1970-04-26'' \<mapsto> [USD \<mapsto> 2],
      ''1970-04-27'' \<mapsto> [USD \<mapsto> 3], ''1970-04-28'' \<mapsto> [USD \<mapsto> 4]]\<rparr>"

text \<open>A rate table whose entries are powers of two.\<close>

definition binaryTable :: RateTable where
  "binaryTable = [SOS \<mapsto> 1, USD \<mapsto> 1 / 1024, EUR \<mapsto> 1 / 512]"
section \<open>Provider manager: retries, backoff and failover\<close>

declare attemptLoop.simps [simp del]
declare historyLoop.simps [simp del]

lemma fetchWithTimeout_eq:
  "fetchWithTimeout p (timeout cfg) tr =
     (attemptResult cfg p (count_list tr (Attempt (name p))), tr @ [Attempt (name p)])"
  by (simp add: fetchWithTimeout_def callProvider_def attemptResult_def)

lemma backoffs_step: "a < n \<Longrightarrow>
  backoffs nm a n = [Attempt nm, Backoff (2 ^ (a - 1) * 1000)] @ backoffs nm (Suc a) n"
  by (simp add: backoffs_def upt_conv_Cons)

lemma backoffs_empty [simp]: "n \<le> a \<Longrightarrow> backoffs nm a n = []"
  by (simp add: backoffs_def)

lemma count_backoffs_other: "nm' \<noteq> nm \<Longrightarrow> count_list (backoffs nm a n) (Attempt nm') = 0"
  by (simp add: backoffs_def count_list_0_iff)

lemma count_schedule_other: "nm' \<noteq> nm \<Longrightarrow> count_list (schedule nm n) (Attempt nm') = 0"
  by (simp add: schedule_def count_backoffs_other)

lemma backoffs_delays:
  "concat (map delayOf (backoffs nm a n)) = map (\<lambda>i. 2 ^ (i - 1) * 1000) [a..<n]"
  by (induction n) (simp_all add: backoffs_def)

lemma backoffs_attempts: "count_list (backoffs nm a n) (Attempt nm) = n - a"
  by (induction n) (auto simp: backoffs_def Suc_diff_le)

lemma schedule_delays:
  "concat (map delayOf (schedule nm n)) = map (\<lambda>i. 2 ^ (i - 1) * 1000) [1..<n]"
  by (simp add: schedule_def backoffs_delays)

lemma schedule_attempts: "count_list (schedule nm n) (Attempt nm) = n"
  by (cases n) (simp_all add: schedule_def backoffs_attempts)

lemma attemptLoop_success:
  assumes "a + n \<le> maxRetries cfg"
    and "\<forall>i<n. isl (attemptResult cfg p (count_list tr (Attempt (name p)) + i))"
    and "attemptResult cfg p (count_list tr (Attempt (name p)) + n) = Inr T"
  shows "attemptLoop cfg p a le tr = (Inr T, tr @ backoffs (name p) a (a + n) @ [Attempt (name p)])"
  using assms
proof (induction n arbitrary: a le tr)
  case 0
  then show ?case
    by (subst attemptLoop.simps) (simp add: fetchWithTimeout_eq)
next
  case (Suc n)
  let ?c = "count_list tr (Attempt (name p))"
  from Suc.prems have ltM: "a < maxRetries cfg" by simp
  from Suc.prems(2) have "isl (attemptResult cfg p (?c + 0))" by blast
  then obtain e where e: "attemptResult cfg p ?c = Inl e" by (auto simp: isl_def)
  let ?tr = "tr @ [Attempt (name p)] @ [Backoff (2 ^ (a - 1) * 1000)]"
  have cnt: "count_list ?tr (Attempt (name p)) = Suc ?c" by simp
  have IH: "attemptLoop cfg p (Suc a) (Some e) ?tr
      = (Inr T, ?tr @ backoffs (name p) (Suc a) (Suc a + n) @ [Attempt (name p)])"
  proof (rule Suc.IH)
    show "Suc a + n \<le> maxRetries cfg" using Suc.prems by simp
    show "\<forall>i<n. isl (attemptResult cfg p (count_list ?tr (Attempt (name p)) + i))"
      unfolding cnt using Suc.prems(2) by auto
    show "attemptResult cfg p (count_list ?tr (Attempt (name p)) + n) = Inr T"
      unfolding cnt using Suc.prems(3) by simp
  qed
  have step: "backoffs (name p) a (a + Suc n)
      = [Attempt (name p), Backoff (2 ^ (a - 1) * 1000)] @ backoffs (name p) (Suc a) (Suc a + n)"
    using backoffs_step[of a "a + Suc n" "name p"] by simp
  show ?case
    apply (subst attemptLoop.simps)
    using ltM e IH step by (simp add: fetchWithTimeout_eq)
qed

lemma attemptLoop_exhaust:
  assumes "Suc M - a = d" "M = maxRetries cfg"
    and "\<forall>k. isl (attemptResult cfg p k)"
  shows "\<exists>le'. attemptLoop cfg p a le tr =
           (Inl le', tr @ backoffs (name p) a M @ (if a \<le> M then [Attempt (name p)] else []))
         \<and> (if a \<le> M
            then \<exists>e. le' = Some e \<and> fst (fetchWithTimeout p (timeout cfg) (tr @ backoffs (name p) a M)) = Inl e
            else le' = le)"
  using assms
proof (induction d arbitrary: a le tr)
  case 0
  then have "\<not> a \<le> M" by simp
  with 0 show ?case
    by (subst attemptLoop.simps) simp
next
  case (Suc d)
  let ?c = "count_list tr (Attempt (name p))"
  from Suc.prems have le: "a \<le> M" by simp
  from Suc.prems obtain e where e: "attemptResult cfg p ?c = Inl e" by (auto simp: isl_def)
  show ?case
  proof (cases "a < M")
    case True
    let ?tr = "tr @ [Attempt (name p)] @ [Backoff (2 ^ (a - 1) * 1000)]"
    have "Suc M - Suc a = d" using Suc.prems by simp
    from Suc.IH[OF this Suc.prems(2,3), of "Some e" ?tr] True
    obtain le' where 1: "attemptLoop cfg p (Suc a) (Some e) ?tr =
           (Inl le', ?tr @ backoffs (name p) (Suc a) M @ [Attempt (name p)])"
      and 2: "\<exists>e. le' = Some e \<and> fst (fetchWithTimeout p (timeout cfg) (?tr @ backoffs (name p) (Suc a) M)) = Inl e"
      by auto
    have "attemptLoop cfg p a le tr = attemptLoop cfg p (Suc a) (Some e) ?tr"
      apply (subst attemptLoop.simps)
      using True e Suc.prems(2) by (simp add: fetchWithTimeout_eq)
    with 1 2 True le show ?thesis
      by (simp add: backoffs_step)
  next
    case False
    with le have eq: "a = M" by simp
    have "attemptLoop cfg p (Suc a) (Some e) (tr @ [Attempt (name p)]) = (Inl (Some e), tr @ [Attempt (name p)])"
      apply (subst attemptLoop.simps) using eq Suc.prems(2) by simp
    moreover have "attemptLoop cfg p a le tr = attemptLoop cfg p (Suc a) (Some e) (tr @ [Attempt (name p)])"
      apply (subst attemptLoop.simps)
      using eq e Suc.prems(2) by (simp add: fetchWithTimeout_eq)
    ultimately show ?thesis using eq e
      by (simp add: fetchWithTimeout_eq)
  qed
qed


lemma schedule_Suc: "schedule nm (Suc n) = backoffs nm 1 (Suc n) @ [Attempt nm]"
  by (simp add: schedule_def)

lemma attemptLoop_exhaust_first:
  assumes "\<forall>k. isl (attemptResult cfg p k)"
  shows "\<exists>le'. attemptLoop cfg p 1 le tr = (Inl le', tr @ schedule (name p) (maxRetries cfg))
         \<and> (if 1 \<le> maxRetries cfg
            then \<exists>e. le' = Some e
                 \<and> fst (fetchWithTimeout p (timeout cfg) (butlast (tr @ schedule (name p) (maxRetries cfg)))) = Inl e
            else le' = le)"
proof -
  from attemptLoop_exhaust[OF refl refl assms, of 1 le tr]
  obtain le' where 1: "attemptLoop cfg p 1 le tr =
           (Inl le', tr @ backoffs (name p) 1 (maxRetries cfg) @ (if 1 \<le> maxRetries cfg then [Attempt (name p)] else []))"
    and 2: "(if 1 \<le> maxRetries cfg
            then \<exists>e. le' = Some e \<and> fst (fetchWithTimeout p (timeout cfg) (tr @ backoffs (name p) 1 (maxRetries cfg))) = Inl e
            else le' = le)"
    by blast
  show ?thesis
  proof (cases "1 \<le> maxRetries cfg")
    case True
    then have s: "schedule (name p) (maxRetries cfg) = backoffs (name p) 1 (maxRetries cfg) @ [Attempt (name p)]"
      by (simp add: schedule_def)
    have "butlast (tr @ schedule (name p) (maxRetries cfg)) = tr @ backoffs (name p) 1 (maxRetries cfg)"
      unfolding s by (simp add: butlast_append)
    with 1 2 True s show ?thesis by auto
  next
    case False
    then have "schedule (name p) (maxRetries cfg) = []" "backoffs (name p) 1 (maxRetries cfg) = []"
      by (simp_all add: schedule_def)
    with 1 2 False show ?thesis by auto
  qed
qed

lemma exhausted_Cons: "exhausted cfg (p # ps) = schedule (name p) (maxRetries cfg) @ exhausted cfg ps"
  by (simp add: exhausted_def)

lemma exhausted_Nil [simp]: "exhausted cfg [] = []"
  by (simp add: exhausted_def)

lemma count_exhausted_other:
  "nm \<notin> name ` set ps \<Longrightarrow> count_list (exhausted cfg ps) (Attempt nm) = 0"
  by (induction ps) (auto simp: exhausted_Cons count_schedule_other)

lemma providerLoop_exhaust:
  assumes "\<forall>p\<in>set ps. \<forall>k. isl (attemptResult cfg p k)"
  shows "\<exists>le'. providerLoop cfg ps le tr = (Inl (AllProvidersFailed le'), tr @ exhausted cfg ps)
         \<and> (if ps \<noteq> [] \<and> 1 \<le> maxRetries cfg
            then \<exists>e. le' = Some e
                 \<and> fst (fetchWithTimeout (last ps) (timeout cfg) (butlast (tr @ exhausted cfg ps))) = Inl e
            else le' = le)"
  using assms
proof (induction ps arbitrary: le tr)
  case Nil
  then show ?case by simp
next
  case (Cons p ps)
  then have p: "\<forall>k. isl (attemptResult cfg p k)" and ps: "\<forall>p\<in>set ps. \<forall>k. isl (attemptResult cfg p k)"
    by simp_all
  let ?tr1 = "tr @ schedule (name p) (maxRetries cfg)"
  from attemptLoop_exhaust_first[OF p, of le tr]
  obtain le1 where 1: "attemptLoop cfg p 1 le tr = (Inl le1, ?tr1)"
    and 2: "(if 1 \<le> maxRetries cfg
            then \<exists>e. le1 = Some e \<and> fst (fetchWithTimeout p (timeout cfg) (butlast ?tr1)) = Inl e
            else le1 = le)"
    by blast
  from Cons.IH[OF ps, of le1 ?tr1]
  obtain le' where 3: "providerLoop cfg ps le1 ?tr1 = (Inl (AllProvidersFailed le'), ?tr1 @ exhausted cfg ps)"
    and 4: "(if ps \<noteq> [] \<and> 1 \<le> maxRetries cfg
            then \<exists>e. le' = Some e
                 \<and> fst (fetchWithTimeout (last ps) (timeout cfg) (butlast (?tr1 @ exhausted cfg ps))) = Inl e
            else le' = le1)"
    by blast
  have run: "providerLoop cfg (p # ps) le tr = (Inl (AllProvidersFailed le'), tr @ exhausted cfg (p # ps))"
    using 1 3 by (simp add: exhausted_Cons)
  show ?case
  proof (cases "ps = []")
    case True
    with 2 4 run show ?thesis by (auto simp: exhausted_Cons split: if_splits)
  next
    case False
    with 2 4 run show ?thesis by (auto simp: exhausted_Cons split: if_splits)
  qed
qed

lemma providerLoop_success:
  assumes "Suc n \<le> maxRetries cfg"
    and "\<forall>p\<in>set ps. \<forall>k. isl (attemptResult cfg p k)"
    and "name q \<notin> name ` set ps"
    and "\<forall>i<n. isl (attemptResult cfg q (count_list tr (Attempt (name q)) + i))"
    and "attemptResult cfg q (count_list tr (Attempt (name q)) + n) = Inr T"
  shows "providerLoop cfg (ps @ q # rest) le tr
           = (Inr T, tr @ exhausted cfg ps @ schedule (name q) (Suc n))"
  using assms
proof (induction ps arbitrary: le tr)
  case Nil
  have "attemptLoop cfg q 1 le tr = (Inr T, tr @ backoffs (name q) 1 (1 + n) @ [Attempt (name q)])"
    by (rule attemptLoop_success) (use Nil in simp_all)
  then show ?case by (simp add: schedule_Suc)
next
  case (Cons p ps)
  then have p: "\<forall>k. isl (attemptResult cfg p k)" and ne: "name p \<noteq> name q" by auto
  let ?tr1 = "tr @ schedule (name p) (maxRetries cfg)"
  from attemptLoop_exhaust_first[OF p, of le tr]
  obtain le1 where 1: "attemptLoop cfg p 1 le tr = (Inl le1, ?tr1)" by blast
  have cnt: "count_list ?tr1 (Attempt (name q)) = count_list tr (Attempt (name q))"
    using ne by (simp add: count_schedule_other)
  have "providerLoop cfg (ps @ q # rest) le1 ?tr1
           = (Inr T, ?tr1 @ exhausted cfg ps @ schedule (name q) (Suc n))"
    by (rule Cons.IH) (use Cons.prems cnt in auto)
  with 1 show ?case by (simp add: exhausted_Cons)
qed

text \<open>
  Claim C3. \<open>fetchRates\<close> goes through the providers in order. When the providers before \<open>q\<close>
  fail on every attempt and \<open>q\<close> fails on its first \<open>N - 1\<close> attempts and succeeds on attempt
  \<open>N \<le> maxRetries\<close>, the call returns the table of \<open>q\<close>; the activity it adds to the trace is,
  for each earlier provider, \<open>maxRetries\<close> attempts with a pause of \<open>2 ^ (attempt - 1)\<close> seconds
  after each attempt but the last, then \<open>N\<close> attempts on \<open>q\<close> with \<open>N - 1\<close> such pauses, and no
  call to a later provider. When every provider fails on every attempt, the call fails with
  the all-providers-failed error, which carries the error of the last attempt made. The trace
  of \<open>n\<close> attempts on a provider holds \<open>n\<close> calls and the \<open>n - 1\<close> pauses of 1000, 2000, 4000,
  ... milliseconds.
\<close>

theorem fetchRates_failover:
  "(1 \<le> N \<and> N \<le> maxRetries cfg
      \<and> primary cfg # fallbacks cfg = ps @ q # rest
      \<and> (\<forall>p\<in>set ps. \<forall>k. isl (attemptResult cfg p k))
      \<and> name q \<notin> name ` set ps
      \<and> (\<forall>i<N - 1. isl (attemptResult cfg q (count_list tr (Attempt (name q)) + i)))
      \<and> attemptResult cfg q (count_list tr (Attempt (name q)) + (N - 1)) = Inr T
    \<longrightarrow> fetchRates cfg tr = (Inr T, tr @ exhausted cfg ps @ schedule (name q) N))
   \<and> (1 \<le> maxRetries cfg
      \<and> (\<forall>p\<in>set (primary cfg # fallbacks cfg). \<forall>k. isl (attemptResult cfg p k))
    \<longrightarrow> (\<exists>e. fetchRates cfg tr
              = (Inl (AllProvidersFailed (Some e)), tr @ exhausted cfg (primary cfg # fallbacks cfg))
           \<and> fst (fetchWithTimeout (last (primary cfg # fallbacks cfg)) (timeout cfg)
                    (butlast (tr @ exhausted cfg (primary cfg # fallbacks cfg)))) = Inl e))
   \<and> count_list (schedule nm n) (Attempt nm) = n
   \<and> concat (map delayOf (schedule nm n)) = map (\<lambda>i. 2 ^ (i - 1) * 1000) [1..<n]"
proof (intro conjI impI)
  assume a: "1 \<le> N \<and> N \<le> maxRetries cfg
      \<and> primary cfg # fallbacks cfg = ps @ q # rest
      \<and> (\<forall>p\<in>set ps. \<forall>k. isl (attemptResult cfg p k))
      \<and> name q \<notin> name ` set ps
      \<and> (\<forall>i<N - 1. isl (attemptResult cfg q (count_list tr (Attempt (name q)) + i)))
      \<and> attemptResult cfg q (count_list tr (Attempt (name q)) + (N - 1)) = Inr T"
  then obtain n where n: "N = Suc n" by (cases N) auto
  have "providerLoop cfg (ps @ q # rest) None tr
           = (Inr T, tr @ exhausted cfg ps @ schedule (name q) (Suc n))"
    by (rule providerLoop_success) (use a n in auto)
  with a n show "fetchRates cfg tr = (Inr T, tr @ exhausted cfg ps @ schedule (name q) N)"
    by (simp add: fetchRates_def)
next
  assume a: "1 \<le> maxRetries cfg
      \<and> (\<forall>p\<in>set (primary cfg # fallbacks cfg). \<forall>k. isl (attemptResult cfg p k))"
  then have "\<forall>p\<in>set (primary cfg # fallbacks cfg). \<forall>k. isl (attemptResult cfg p k)" by blast
  from providerLoop_exhaust[OF this, of None tr] a
  show "\<exists>e. fetchRates cfg tr
              = (Inl (AllProvidersFailed (Some e)), tr @ exhausted cfg (primary cfg # fallbacks cfg))
           \<and> fst (fetchWithTimeout (last (primary cfg # fallbacks cfg)) (timeout cfg)
                    (butlast (tr @ exhausted cfg (primary cfg # fallbacks cfg)))) = Inl e"
    unfolding fetchRates_def by (auto split: if_splits)
next
  show "count_list (schedule nm n) (Attempt nm) = n" by (rule schedule_attempts)
next
  show "concat (map delayOf (schedule nm n)) = map (\<lambda>i. 2 ^ (i - 1) * 1000) [1..<n]"
    by (rule schedule_delays)
qed

lemma schedule_two: "schedule nm 2 = [Attempt nm, Backoff 1000, Attempt nm]"
  by (simp add: schedule_def backoffs_def upt_rec)

theorem fetchRates_failover_witness:
  "(\<forall>k. isl (attemptResult (chain (unreachable ''P1'') (flaky ''P2'' scenarioTable))
             (unreachable ''P1'') k))
   \<and> attemptResult (chain (unreachable ''P1'') (flaky ''P2'' scenarioTable))
        (flaky ''P2'' scenarioTable) 1 = Inr scenarioTable
   \<and> fetchRates (chain (unreachable ''P1'') (flaky ''P2'' scenarioTable)) []
       = (Inr scenarioTable,
          [Attempt ''P1'', Backoff 1000, Attempt ''P1'',
           Attempt ''P2'', Backoff 1000, Attempt ''P2''])
   \<and> fetchRates (chain (unreachable ''P1'') (slow ''P2'' scenarioTable)) []
       = (Inl (AllProvidersFailed (Some (ProviderTimeout ''P2'' 10000))),
          [Attempt ''P1'', Backoff 1000, Attempt ''P1'',
           Attempt ''P2'', Backoff 1000, Attempt ''P2''])"
proof -
  let ?A = "chain (unreachable ''P1'') (flaky ''P2'' scenarioTable)"
  let ?B = "chain (unreachable ''P1'') (slow ''P2'' scenarioTable)"
  have a1: "\<forall>k. isl (attemptResult ?A (unreachable ''P1'') k)"
    by (simp add: attemptResult_def settle_def unreachable_def chain_def)
  have a2: "attemptResult ?A (flaky ''P2'' scenarioTable) 1 = Inr scenarioTable"
    by (simp add: attemptResult_def settle_def flaky_def chain_def)
  have a3: "isl (attemptResult ?A (flaky ''P2'' scenarioTable) 0)"
    by (simp add: attemptResult_def settle_def flaky_def chain_def)
  have hypA: "1 \<le> (2::nat) \<and> 2 \<le> maxRetries ?A
      \<and> primary ?A # fallbacks ?A = [unreachable ''P1''] @ flaky ''P2'' scenarioTable # []
      \<and> (\<forall>p\<in>set [unreachable ''P1'']. \<forall>k. isl (attemptResult ?A p k))
      \<and> name (flaky ''P2'' scenarioTable) \<notin> name ` set [unreachable ''P1'']
      \<and> (\<forall>i<2 - 1. isl (attemptResult ?A (flaky ''P2'' scenarioTable)
                (count_list [] (Attempt (name (flaky ''P2'' scenarioTable))) + i)))
      \<and> attemptResult ?A (flaky ''P2'' scenarioTable)
            (count_list [] (Attempt (name (flaky ''P2'' scenarioTable))) + (2 - 1)) = Inr scenarioTable"
    using a1 a2 a3 by (simp add: chain_def unreachable_def flaky_def)
  have runA: "fetchRates ?A [] = (Inr scenarioTable,
      [] @ exhausted ?A [unreachable ''P1''] @ schedule (name (flaky ''P2'' scenarioTable)) 2)"
    using fetchRates_failover[of 2 ?A "[unreachable ''P1'']" "flaky ''P2'' scenarioTable"
        "[]" "[]" scenarioTable] hypA by blast
  have b1: "\<forall>p\<in>set (primary ?B # fallbacks ?B). \<forall>k. isl (attemptResult ?B p k)"
    by (simp add: attemptResult_def settle_def unreachable_def slow_def chain_def)
  have "1 \<le> maxRetries ?B" by (simp add: chain_def)
  with b1 fetchRates_failover[of 0 ?B "[]" "unreachable ''P1''" "[]" "[]" scenarioTable]
  obtain e where runB: "fetchRates ?B []
        = (Inl (AllProvidersFailed (Some e)), [] @ exhausted ?B (primary ?B # fallbacks ?B))"
    and last: "fst (fetchWithTimeout (last (primary ?B # fallbacks ?B)) (timeout ?B)
                 (butlast ([] @ exhausted ?B (primary ?B # fallbacks ?B)))) = Inl e"
    by blast
  have trA: "exhausted ?A [unreachable ''P1''] @ schedule (name (flaky ''P2'' scenarioTable)) 2
      = [Attempt ''P1'', Backoff 1000, Attempt ''P1'', Attempt ''P2'', Backoff 1000, Attempt ''P2'']"
    by (simp add: exhausted_def schedule_two chain_def unreachable_def flaky_def)
  have trB: "exhausted ?B (primary ?B # fallbacks ?B)
      = [Attempt ''P1'', Backoff 1000, Attempt ''P1'', Attempt ''P2'', Backoff 1000, Attempt ''P2'']"
    by (simp add: exhausted_def schedule_two chain_def unreachable_def slow_def)
  have "e = ProviderTimeout ''P2'' 10000"
    using last unfolding trB
    by (simp add: chain_def slow_def fetchWithTimeout_def callProvider_def settle_def)
  with a1 a2 runA runB trA trB show ?thesis by simp
qed

section \<open>Provider manager: the order of the fallback list\<close>

lemma sortKey_eq: "priority q \<noteq> Some 0 \<Longrightarrow> sortKey q = priorityOr999 q"
  by (auto simp: sortKey_def priorityOr999_def split: option.splits)

lemma fallbacks_add_mset:
  "mset (fallbacks (addFallbackProvider p cfg)) = mset (fallbacks cfg) + {#p#}"
  by (simp add: addFallbackProvider_def)

lemma fallbacks_add_sorted:
  assumes "\<forall>q\<in>set (p # fallbacks cfg). priority q \<noteq> Some 0"
  shows "sorted (map priorityOr999 (fallbacks (addFallbackProvider p cfg)))"
proof -
  let ?xs = "sort_key sortKey (fallbacks cfg @ [p])"
  have "\<forall>q\<in>set ?xs. sortKey q = priorityOr999 q"
    using assms by (auto simp: sortKey_eq)
  then have "map priorityOr999 ?xs = map sortKey ?xs" by (simp only: map_eq_conv) simp
  moreover have "sorted (map sortKey ?xs)" by (rule sorted_sort_key)
  ultimately have "sorted (map priorityOr999 ?xs)" by (simp only:)
  then show ?thesis by (simp only: addFallbackProvider_def) simp
qed

lemma fallbacks_addAll_mset:
  "mset (fallbacks (addAll ps cfg)) = mset (fallbacks cfg) + mset ps"
  by (induction ps arbitrary: cfg) (simp_all add: addAll_def fallbacks_add_mset)

lemma addAll_snoc: "addAll (ps @ [p]) cfg = addFallbackProvider p (addAll ps cfg)"
  by (simp add: addAll_def)

text \<open>
  Claim C9, as the specification states it, fails: a provider without priority is ordered as
  if its priority were 999, so a provider of priority 1000 added after it ends up behind it.
\<close>

theorem addFallbackProvider_absent_not_last:
  "map priority (fallbacks (addFallbackProvider priority1000 (addFallbackProvider noPriority bareConfig)))
     = [None, Some 1000]
   \<and> \<not> absentLast (fallbacks (addFallbackProvider priority1000 (addFallbackProvider noPriority bareConfig)))"
  by (simp add: addFallbackProvider_def bareConfig_def noPriority_def priority1000_def
      unreachable_def sortKey_def absentLast_def)

text \<open>
  Claim C9, amended. \<open>addFallbackProvider\<close> appends the provider and re-sorts the list: the new
  list has the old entries and the new one, and it is ascending by priority when a missing
  priority counts as 999. The same holds after any non-empty sequence of additions. Providers
  of priority zero are left aside.
\<close>

theorem addFallbackProvider_order:
  assumes "\<forall>q\<in>set (fallbacks cfg @ ps @ [p]). priority q \<noteq> Some 0"
  shows "mset (fallbacks (addFallbackProvider p cfg)) = mset (fallbacks cfg) + {#p#}
       \<and> sorted (map priorityOr999 (fallbacks (addFallbackProvider p cfg)))
       \<and> sorted (map priorityOr999 (fallbacks (addAll (ps @ [p]) cfg)))"
proof (intro conjI)
  show "mset (fallbacks (addFallbackProvider p cfg)) = mset (fallbacks cfg) + {#p#}"
    by (rule fallbacks_add_mset)
  show "sorted (map priorityOr999 (fallbacks (addFallbackProvider p cfg)))"
    by (rule fallbacks_add_sorted) (use assms in auto)
  have "set (fallbacks (addAll ps cfg)) = set (fallbacks cfg) \<union> set ps"
    using fallbacks_addAll_mset[of ps cfg] by (metis set_mset_mset set_mset_union)
  then have "\<forall>q\<in>set (p # fallbacks (addAll ps cfg)). priority q \<noteq> Some 0"
    using assms by auto
  then show "sorted (map priorityOr999 (fallbacks (addAll (ps @ [p]) cfg)))"
    unfolding addAll_snoc by (rule fallbacks_add_sorted)
qed

theorem addFallbackProvider_order_witness:
  "map priority (fallbacks bareConfig @ [noPriority] @ [priority2]) = [None, Some 2]
   \<and> map name (fallbacks (addAll ([noPriority] @ [priority2]) bareConfig)) = [''C'', ''A'']
   \<and> sorted (map priorityOr999 (fallbacks (addAll ([noPriority] @ [priority2]) bareConfig)))"
  using addFallbackProvider_order[of bareConfig "[noPriority]" priority2]
  by (simp add: addAll_def addFallbackProvider_def bareConfig_def noPriority_def priority2_def
      unreachable_def sortKey_def)

section \<open>Historical fetch without a capable provider\<close>

lemma historicalLoop_none:
  "\<forall>p\<in>set ps. fetchHistoricalRates p = None \<Longrightarrow>
   historicalLoop d ps le tr = (Inl (AllHistoricalFailed le), tr)"
  by (induction ps) simp_all

text \<open>
  Claim C10. When no configured provider has the historical capability, the manager's
  historical fetch fails and calls no provider: the trace is unchanged. The default manager
  has the single provider of exchangerate.host, which has no historical capability, so under
  it every lookup of a date that is not in the cache fails, and leaves the world as it was.
\<close>

theorem fetchHistoricalRates_no_capability:
  "((\<forall>p\<in>set (primary cfg # fallbacks cfg). fetchHistoricalRates p = None)
      \<longrightarrow> managerFetchHistoricalRates cfg d tr = (Inl (AllHistoricalFailed None), tr))
   \<and> (getCachedRates w d = None
      \<longrightarrow> getHistoricalRates (defaultProviderManager net) d w = (Inl (AllHistoricalFailed None), w))"
proof (intro conjI impI)
  assume "\<forall>p\<in>set (primary cfg # fallbacks cfg). fetchHistoricalRates p = None"
  then have "filter (\<lambda>p. fetchHistoricalRates p \<noteq> None) (primary cfg # fallbacks cfg) = []"
    by (simp add: filter_empty_conv)
  then show "managerFetchHistoricalRates cfg d tr = (Inl (AllHistoricalFailed None), tr)"
    by (simp add: managerFetchHistoricalRates_def)
next
  assume "getCachedRates w d = None"
  then show "getHistoricalRates (defaultProviderManager net) d w = (Inl (AllHistoricalFailed None), w)"
    by (simp add: getHistoricalRates_def managerFetchHistoricalRates_def
        defaultProviderManager_def ExchangerateHostProvider_def)
qed

theorem fetchHistoricalRates_no_capability_witness:
  "map fetchHistoricalRates (primary bareConfig # fallbacks bareConfig) = [None]
   \<and> managerFetchHistoricalRates bareConfig ''2024-01-01'' [] = (Inl (AllHistoricalFailed None), [])
   \<and> getCachedRates emptyWorld ''2024-01-01'' = None
   \<and> getHistoricalRates (defaultProviderManager (\<lambda>k. (0, Rejects ''down''))) ''2024-01-01'' emptyWorld
       = (Inl (AllHistoricalFailed None), emptyWorld)"
  using fetchHistoricalRates_no_capability[of bareConfig "''2024-01-01''" "[]" emptyWorld
      "\<lambda>k. (0, Rejects ''down'')"]
  by (simp add: bareConfig_def unreachable_def emptyWorld_def getCachedRates_def
      tryReadJSON_historical_def)

section \<open>Current rates: the resolution order of getRates\<close>

lemma readCache_ticks [simp]: "readCache p (w\<lparr>ticks := n\<rparr>) = readCache p w"
  by (simp add: readCache_def getMemoryCache_def tryReadJSON_def split: option.splits)

lemma getRates_fresh:
  assumes "readCache (persistPath opts) w = Some c" "clock w (ticks w) - capturedAt c < ttlMs opts"
  shows "getRates seed opts w = (rates c, w\<lparr>ticks := Suc (ticks w)\<rparr>)"
  using assms by (simp add: getRates_def Date_now_def)

lemma getRates_offline:
  assumes "stale opts w" "offline opts"
  shows "fst (getRates seed opts w) = cachedOrSeed seed opts w"
    and "trace (snd (getRates seed opts w)) = trace w"
  using assms
  by (auto simp: getRates_def Date_now_def stale_def cachedOrSeed_def split: option.splits)

lemma invoke_eq:
  "invoke p w = (nextResponse p w, w\<lparr>trace := trace w @ [Attempt (name p)]\<rparr>)"
  by (simp add: invoke_def callProvider_def nextResponse_def split: prod.splits)

lemma nextResponse_ticks [simp]: "nextResponse p (w\<lparr>ticks := n\<rparr>) = nextResponse p w"
  by (simp add: nextResponse_def)

lemma getRates_rejected:
  assumes "stale opts w" "\<not> offline opts" "nextResponse (provider opts) w = Rejects msg"
  shows "fst (getRates seed opts w) = cachedOrSeed seed opts w"
    and "trace (snd (getRates seed opts w)) = trace w @ [Attempt (name (provider opts))]"
  using assms
  by (auto simp: getRates_def Date_now_def stale_def cachedOrSeed_def invoke_eq split: option.splits)

lemma getRates_resolved:
  assumes "stale opts w" "\<not> offline opts" "nextResponse (provider opts) w = Resolves live"
  shows "fst (getRates seed opts w) = live"
    and "trace (snd (getRates seed opts w)) = trace w @ [Attempt (name (provider opts))]"
    and "\<exists>t. memoryCache (snd (getRates seed opts w)) = Some \<lparr>capturedAt = t, rates = live\<rparr>"
    and "persistPath opts \<noteq> [] \<and> writable w
           \<longrightarrow> files (snd (getRates seed opts w)) (persistPath opts)
                = memoryCache (snd (getRates seed opts w))"
  using assms
  by (auto simp: getRates_def Date_now_def stale_def invoke_eq writeCache_def setMemoryCache_def
      tryWriteJSON_def Let_def split: option.splits)

text \<open>
  Claim C1. \<open>getRates\<close> resolves in this order. A cached snapshot that is fresh
  (\<open>now - capturedAt < ttl\<close>) is returned and no provider is called. Otherwise, when
  \<open>offline\<close> is set, the cached table is returned if there is one, stale or not, else the seed
  table, again without any provider call. Otherwise the provider is called once: when it
  resolves, its table is returned and stored as the new snapshot in memory, and in the
  persisted file when a path is set and the write succeeds; when it rejects, the stale cached
  table is returned if there is one, else the seed table. In every case a table is returned.
\<close>

theorem getRates_resolution:
  "(readCache (persistPath opts) w = Some c \<and> clock w (ticks w) - capturedAt c < ttlMs opts
      \<longrightarrow> fst (getRates seed opts w) = rates c
          \<and> trace (snd (getRates seed opts w)) = trace w)
   \<and> (stale opts w \<and> offline opts
      \<longrightarrow> fst (getRates seed opts w) = cachedOrSeed seed opts w
          \<and> trace (snd (getRates seed opts w)) = trace w)
   \<and> (stale opts w \<and> \<not> offline opts \<and> nextResponse (provider opts) w = Resolves live
      \<longrightarrow> fst (getRates seed opts w) = live
          \<and> trace (snd (getRates seed opts w)) = trace w @ [Attempt (name (provider opts))]
          \<and> (\<exists>t. memoryCache (snd (getRates seed opts w)) = Some \<lparr>capturedAt = t, rates = live\<rparr>)
          \<and> (persistPath opts \<noteq> [] \<and> writable w
               \<longrightarrow> files (snd (getRates seed opts w)) (persistPath opts)
                    = memoryCache (snd (getRates seed opts w))))
   \<and> (stale opts w \<and> \<not> offline opts \<and> nextResponse (provider opts) w = Rejects msg
      \<longrightarrow> fst (getRates seed opts w) = cachedOrSeed seed opts w
          \<and> trace (snd (getRates seed opts w)) = trace w @ [Attempt (name (provider opts))])"
  using getRates_fresh[of opts w c seed] getRates_offline[of opts w seed]
    getRates_resolved[of opts w live seed] getRates_rejected[of opts w msg seed]
  by (intro conjI impI) simp_all

theorem getRates_resolution_witness:
  "fst (getRates seedFixture (optionsWith (steady ''mock'' seedFixture) False) (cachedWorld 1000))
      = scenarioTable
   \<and> trace (snd (getRates seedFixture (optionsWith (steady ''mock'' seedFixture) False)
        (cachedWorld 1000))) = []
   \<and> fst (getRates seedFixture (optionsWith (steady ''mock'' scenarioTable) True) emptyWorld)
      = seedFixture
   \<and> fst (getRates seedFixture (optionsWith (steady ''mock'' scenarioTable) True) (cachedWorld 10000))
      = scenarioTable
   \<and> fst (getRates seedFixture (optionsWith (steady ''mock'' scenarioTable) False) emptyWorld)
      = scenarioTable
   \<and> trace (snd (getRates seedFixture (optionsWith (steady ''mock'' scenarioTable) False) emptyWorld))
      = [Attempt ''mock'']
   \<and> fst (getRates seedFixture (optionsWith (unreachable ''mock'') False) (cachedWorld 10000))
      = scenarioTable
   \<and> fst (getRates seedFixture (optionsWith (unreachable ''mock'') False) emptyWorld)
      = seedFixture"
  using
    getRates_resolution[of "optionsWith (steady ''mock'' seedFixture) False" "cachedWorld 1000"
      "\<lparr>capturedAt = 100 * msPerDay - 1000, rates = scenarioTable\<rparr>" seedFixture]
    getRates_resolution[of "optionsWith (steady ''mock'' scenarioTable) True" emptyWorld _ seedFixture]
    getRates_resolution[of "optionsWith (steady ''mock'' scenarioTable) True" "cachedWorld 10000" _ seedFixture]
    getRates_resolution[of "optionsWith (steady ''mock'' scenarioTable) False" emptyWorld _ seedFixture scenarioTable]
    getRates_resolution[of "optionsWith (unreachable ''mock'') False" "cachedWorld 10000" _ seedFixture _ "''unreachable''"]
    getRates_resolution[of "optionsWith (unreachable ''mock'') False" emptyWorld _ seedFixture _ "''unreachable''"]
  by (simp add: optionsWith_def cachedWorld_def emptyWorld_def steady_def unreachable_def
      stale_def cachedOrSeed_def nextResponse_def readCache_def getMemoryCache_def tryReadJSON_def
      msPerDay_def)

section \<open>Conversion\<close>


section \<open>The two-provider scenario\<close>

text \<open>
  Claim C2, as the specification states it, fails: \<open>getRates\<close> does not go through the
  provider manager. It calls the one provider of its options once. With the always-failing
  first provider of the scenario it makes a single attempt and falls back to the seed table;
  with the second provider it never touches the first.
\<close>

theorem getRates_single_attempt:
  "fst (getRates seedFixture (optionsWith (unreachable ''P1'') False) emptyWorld) = seedFixture
   \<and> fst (getRates seedFixture (optionsWith (unreachable ''P1'') False) emptyWorld) \<noteq> scenarioTable
   \<and> trace (snd (getRates seedFixture (optionsWith (unreachable ''P1'') False) emptyWorld))
       = [Attempt ''P1'']
   \<and> trace (snd (getRates seedFixture (optionsWith (steady ''P2'' scenarioTable) False) emptyWorld))
       = [Attempt ''P2'']"
proof -
  have "seedFixture EUR \<noteq> scenarioTable EUR"
    by (simp add: seedFixture_def scenarioTable_def)
  then have "seedFixture \<noteq> scenarioTable" by metis
  then show ?thesis
    by (simp add: getRates_def optionsWith_def emptyWorld_def readCache_def getMemoryCache_def
        tryReadJSON_def invoke_def callProvider_def unreachable_def steady_def Date_now_def
        writeCache_def setMemoryCache_def tryWriteJSON_def)
qed

text \<open>
  Claim C2, amended. With the chain of a first provider that fails on every attempt and a
  second provider whose first call returns a table, and two attempts per provider, the
  manager's \<open>fetchRates\<close> makes exactly two failed attempts on the first provider, with one
  pause of a second between them, then returns the table from the first attempt on the second
  provider, and does nothing after it. \<open>getRates\<close> itself, on a cache miss with a provider
  that rejects, makes one call to that provider and returns the seed table.
\<close>

theorem fetchRates_scenario:
  "(maxRetries cfg = 2 \<and> primary cfg = p1 \<and> fallbacks cfg = [p2] \<and> name p1 \<noteq> name p2
      \<and> (\<forall>k. isl (attemptResult cfg p1 k)) \<and> attemptResult cfg p2 0 = Inr T
     \<longrightarrow> fetchRates cfg []
          = (Inr T, [Attempt (name p1), Backoff 1000, Attempt (name p1), Attempt (name p2)]))
   \<and> (readCache (persistPath opts) w = None \<and> \<not> offline opts
      \<and> nextResponse (provider opts) w = Rejects msg
     \<longrightarrow> fst (getRates seed opts w) = seed
        \<and> trace (snd (getRates seed opts w)) = trace w @ [Attempt (name (provider opts))])"
proof (intro conjI impI)
  assume a: "maxRetries cfg = 2 \<and> primary cfg = p1 \<and> fallbacks cfg = [p2] \<and> name p1 \<noteq> name p2
      \<and> (\<forall>k. isl (attemptResult cfg p1 k)) \<and> attemptResult cfg p2 0 = Inr T"
  have "providerLoop cfg ([p1] @ p2 # []) None []
      = (Inr T, [] @ exhausted cfg [p1] @ schedule (name p2) (Suc 0))"
    by (rule providerLoop_success) (use a in auto)
  moreover have "exhausted cfg [p1] = [Attempt (name p1), Backoff 1000, Attempt (name p1)]"
    using a by (simp add: exhausted_def schedule_two)
  moreover have "schedule (name p2) (Suc 0) = [Attempt (name p2)]"
    by (simp add: schedule_def backoffs_def)
  ultimately show "fetchRates cfg []
      = (Inr T, [Attempt (name p1), Backoff 1000, Attempt (name p1), Attempt (name p2)])"
    using a by (simp add: fetchRates_def)
next
  assume a: "readCache (persistPath opts) w = None \<and> \<not> offline opts
      \<and> nextResponse (provider opts) w = Rejects msg"
  then have s: "stale opts w" by (simp add: stale_def)
  show "fst (getRates seed opts w) = seed"
    using getRates_rejected(1)[OF s, of msg seed] a by (simp add: cachedOrSeed_def)
  show "trace (snd (getRates seed opts w)) = trace w @ [Attempt (name (provider opts))]"
    using getRates_rejected(2)[OF s, of msg seed] a by simp
qed

theorem fetchRates_scenario_witness:
  "fetchRates (chain (unreachable ''P1'') (steady ''P2'' scenarioTable)) []
     = (Inr scenarioTable, [Attempt ''P1'', Backoff 1000, Attempt ''P1'', Attempt ''P2''])
   \<and> scenarioTable SOS = Some 1 \<and> scenarioTable USD = Some 0.002
   \<and> fst (getRates seedFixture (optionsWith (unreachable ''P1'') False) emptyWorld) = seedFixture"
  using fetchRates_scenario[of "chain (unreachable ''P1'') (steady ''P2'' scenarioTable)"
      "unreachable ''P1''" "steady ''P2'' scenarioTable" scenarioTable
      "optionsWith (unreachable ''P1'') False" emptyWorld "''unreachable''" seedFixture]
  by (simp add: chain_def unreachable_def steady_def attemptResult_def settle_def
      scenarioTable_def optionsWith_def emptyWorld_def readCache_def getMemoryCache_def
      tryReadJSON_def nextResponse_def)

section \<open>Arithmetic of doubles\<close>

text \<open>
  Rounding to the nearest double errs by at most half a unit in the last place. For a number
  in the normal range, from \<open>2\<^sup>-\<^sup>1\<^sup>0\<^sup>2\<^sup>2\<close> to \<open>2\<^sup>1\<^sup>0\<^sup>2\<^sup>3\<close>, the result is finite and within the
  relative error \<open>2\<^sup>-\<^sup>5\<^sup>3\<close>; a number of \<open>2\<^sup>1\<^sup>0\<^sup>2\<^sup>4\<close> or more rounds to infinity.
\<close>

lemma roundEven_err: "\<bar>of_int (roundEven r) - r\<bar> \<le> 1 / 2"
proof -
  have "of_int \<lfloor>r\<rfloor> \<le> r" "r < of_int \<lfloor>r\<rfloor> + 1" by linarith+
  then show ?thesis by (auto simp: roundEven_def Let_def)
qed

lemma roundEven_ge: "of_int n \<le> r \<Longrightarrow> n \<le> roundEven r"
proof -
  assume "of_int n \<le> r"
  then have "n \<le> \<lfloor>r\<rfloor>" by (simp add: le_floor_iff)
  then show ?thesis by (auto simp: roundEven_def Let_def)
qed

lemma ulp_pos: "0 < ulp x"
  by (simp add: ulp_def)

lemma nearest_err: "\<bar>nearest x - x\<bar> \<le> ulp x / 2"
proof -
  have "nearest x - x = (of_int (roundEven (x / ulp x)) - x / ulp x) * ulp x"
    using ulp_pos[of x] by (simp add: nearest_def algebra_simps)
  then have "\<bar>nearest x - x\<bar> = \<bar>of_int (roundEven (x / ulp x)) - x / ulp x\<bar> * ulp x"
    using ulp_pos[of x] by (simp add: abs_mult)
  also have "\<dots> \<le> 1 / 2 * ulp x"
    using roundEven_err[of "x / ulp x"] ulp_pos[of x] by (intro mult_right_mono) simp_all
  finally show ?thesis by simp
qed

lemma expo_le: assumes "x \<noteq> 0" "- 1022 \<le> log 2 \<bar>x\<bar>" shows "2 powr of_int (expo x) \<le> \<bar>x\<bar>"
proof -
  have "(- 1022 :: int) \<le> \<lfloor>log 2 \<bar>x\<bar>\<rfloor>" using assms(2) by (simp add: le_floor_iff)
  then have e: "expo x = \<lfloor>log 2 \<bar>x\<bar>\<rfloor>" by (simp add: expo_def)
  have "2 powr of_int \<lfloor>log 2 \<bar>x\<bar>\<rfloor> \<le> 2 powr log 2 \<bar>x\<bar>"
    by (intro powr_mono) simp_all
  also have "\<dots> = \<bar>x\<bar>" using assms(1) by simp
  finally show ?thesis by (simp add: e)
qed

lemma log2_pow: "log 2 (2 ^ n) = real n"
  by (simp add: log_nat_power)

lemma log2_inv_pow: "log 2 (1 / 2 ^ n) = - real n"
  by (simp add: log_divide log_nat_power)

lemma ulp_normal:
  assumes "1 / 2 ^ 1022 \<le> \<bar>x\<bar>"
  shows "ulp x \<le> \<bar>x\<bar> / 2 ^ 52"
proof -
  have pos: "0 < \<bar>x\<bar>" using assms by (smt (verit) divide_pos_pos zero_less_power)
  then have nz: "x \<noteq> 0" by simp
  have "log 2 (1 / 2 ^ 1022) \<le> log 2 \<bar>x\<bar>"
    using assms pos by (subst log_le_cancel_iff) simp_all
  then have "- 1022 \<le> log 2 \<bar>x\<bar>" using log2_inv_pow[of 1022] by simp
  from expo_le[OF nz this] have "2 powr of_int (expo x) \<le> \<bar>x\<bar>" .
  moreover have "ulp x = 2 powr of_int (expo x) / 2 ^ 52"
    by (simp add: ulp_def powr_diff powr_realpow[symmetric])
  ultimately show ?thesis by (simp add: divide_right_mono)
qed

lemma fl_normal:
  assumes "1 / 2 ^ 1022 \<le> \<bar>x\<bar>" "\<bar>x\<bar> \<le> 2 ^ 1023"
  shows "\<exists>y. fl x = Some y \<and> \<bar>y - x\<bar> \<le> \<bar>x\<bar> / 2 ^ 53"
proof -
  have pos: "0 < \<bar>x\<bar>" using assms(1) by (smt (verit) divide_pos_pos zero_less_power)
  have err: "\<bar>nearest x - x\<bar> \<le> \<bar>x\<bar> / 2 ^ 53"
    using nearest_err[of x] ulp_normal[OF assms(1)] by simp
  have "\<bar>nearest x\<bar> \<le> \<bar>x\<bar> + \<bar>x\<bar> / 2 ^ 53" using err by linarith
  also have "\<dots> \<le> 2 ^ 1023 + 2 ^ 1023 / 2 ^ 53"
    using assms(2) by (intro add_mono divide_right_mono) simp_all
  also have "\<dots> < 2 ^ 1024" by simp
  finally have "\<not> 2 ^ 1024 \<le> \<bar>nearest x\<bar>" by simp
  with pos err show ?thesis by (simp add: fl_def)
qed

lemma fl_overflow:
  assumes "2 ^ 1024 \<le> x"
  shows "fl x = None"
proof -
  have xpos: "0 < x" using assms by (smt (verit) zero_less_power)
  have "log 2 (2 ^ 1024) \<le> log 2 x"
    using assms xpos by (subst log_le_cancel_iff) simp_all
  then have "1024 \<le> log 2 x" using log2_pow[of 1024] by simp
  then have "(- 1022 :: real) \<le> log 2 \<bar>x\<bar>" using xpos by simp
  from expo_le[OF _ this] xpos have le: "2 powr of_int (expo x) \<le> x" by simp
  have "(1024 :: int) \<le> \<lfloor>log 2 \<bar>x\<bar>\<rfloor>"
    using \<open>1024 \<le> log 2 x\<close> xpos by (simp add: le_floor_iff)
  then have e: "1024 \<le> expo x" by (simp add: expo_def)
  have u: "ulp x = 2 powr of_int (expo x) / 2 ^ 52"
    by (simp add: ulp_def powr_diff powr_realpow[symmetric])
  have "1 \<le> x / 2 powr of_int (expo x)" using le by simp
  then have "2 ^ 52 * 1 \<le> 2 ^ 52 * (x / 2 powr of_int (expo x))"
    by (intro mult_left_mono) simp_all
  then have "of_int (2 ^ 52) \<le> x / ulp x"
    by (simp add: u mult.commute)
  then have "2 ^ 52 \<le> roundEven (x / ulp x)" by (rule roundEven_ge)
  then have "(2 ^ 52 :: real) \<le> of_int (roundEven (x / ulp x))"
    by (metis of_int_le_iff of_int_numeral of_int_power)
  then have "2 ^ 52 * ulp x \<le> nearest x"
    using ulp_pos[of x] by (simp add: nearest_def)
  then have "2 powr of_int (expo x) \<le> nearest x" by (simp add: u)
  moreover have "(2::real) powr of_int 1024 \<le> 2 powr of_int (expo x)"
    using e by (intro powr_mono) simp_all
  moreover have "(2::real) powr of_int 1024 = 2 ^ 1024"
    by (simp add: powr_realpow[symmetric])
  ultimately have "2 ^ 1024 \<le> \<bar>nearest x\<bar>" by linarith
  with xpos show ?thesis by (simp add: fl_def)
qed

text \<open>Powers of two are doubles up to \<open>2\<^sup>1\<^sup>0\<^sup>2\<^sup>3\<close>, and round to infinity from \<open>2\<^sup>1\<^sup>0\<^sup>2\<^sup>4\<close> on.\<close>

lemma roundEven_int: "roundEven (of_int k) = k"
  by (simp add: roundEven_def)

lemma nearest_pow2: "nearest (2 ^ n) = 2 ^ n"
proof -
  have e: "expo (2 ^ n) = int n"
    using log2_pow[of n] by (simp add: expo_def)
  have "ulp (2 ^ n) = 2 powr (of_int (int n) - 52)"
    by (simp add: ulp_def e)
  also have "\<dots> = 2 powr real n / 2 powr 52" by (simp add: powr_diff)
  also have "2 powr real n = (2 ^ n :: real)" by (rule powr_realpow) simp
  also have "2 powr 52 = (2 ^ 52 :: real)" using powr_realpow[of 2 52] by simp
  finally have u: "ulp (2 ^ n) = 2 ^ n / 2 ^ 52" .
  have "(2 ^ n :: real) / ulp (2 ^ n) = of_int (2 ^ 52)"
    by (simp add: u)
  then have "roundEven (2 ^ n / ulp (2 ^ n)) = 2 ^ 52"
    by (simp only: roundEven_int)
  then show ?thesis by (simp add: nearest_def u)
qed

lemma fl_pow2: "n \<le> 1023 \<Longrightarrow> fl (2 ^ n) = Some (2 ^ n)"
proof -
  assume "n \<le> 1023"
  then have "(2 :: real) ^ n < 2 ^ 1024" by (intro power_strict_increasing) simp_all
  then show ?thesis by (simp add: fl_def nearest_pow2)
qed

lemma fl_overflow_pow2: "1024 \<le> n \<Longrightarrow> fl (2 ^ n) = None"
proof -
  assume "1024 \<le> n"
  then have "(2 :: real) ^ 1024 \<le> 2 ^ n" by (intro power_increasing) simp_all
  then show ?thesis by (simp add: fl_def nearest_pow2)
qed

text \<open>
  Relative errors add up: a product of two approximations, rounded, is an approximation of
  the product, with one rounding more than the two together.
\<close>

lemma relErr_nonneg: "0 \<le> relErr k"
  by (simp add: relErr_def)

lemma relErr_mono: "j \<le> k \<Longrightarrow> relErr j \<le> relErr k"
  by (simp add: relErr_def power_increasing)

lemma relErr_6: "relErr 6 \<le> 1 / 10 ^ 6"
proof -
  have "(1 + 1 / 2 ^ 53 :: real) \<le> 1 + 1 / 10 ^ 7" by simp
  then have "(1 + 1 / 2 ^ 53 :: real) ^ 6 \<le> (1 + 1 / 10 ^ 7) ^ 6"
    by (intro power_mono) simp_all
  also have "\<dots> = (10000001 / 10000000 :: real) ^ 6" by simp
  also have "\<dots> = 10000001 ^ 6 / 10000000 ^ 6" by (rule power_divide)
  also have "\<dots> \<le> 1 + 1 / 10 ^ 6" by simp
  finally show ?thesis by (simp add: relErr_def)
qed

lemma relErr_small: "k \<le> 6 \<Longrightarrow> relErr k \<le> 1 / 2"
proof -
  assume "k \<le> 6"
  then have "relErr k \<le> relErr 6" by (rule relErr_mono)
  also have "\<dots> \<le> 1 / 10 ^ 6" by (rule relErr_6)
  finally show ?thesis by simp
qed

lemma relErr_add: "(1 + relErr j) * (1 + relErr k) = 1 + relErr (j + k)"
  by (simp add: relErr_def power_add)

lemma closeTo_exact: "closeTo a a (relErr 0)"
  by (simp add: closeTo_def relErr_def)

lemma closeTo_mult:
  assumes "closeTo y1 a (relErr j)" "closeTo y2 b (relErr k)"
  shows "closeTo (y1 * y2) (a * b) (relErr (j + k))"
proof -
  have d: "y1 * y2 - a * b = (y1 - a) * (y2 - b) + a * (y2 - b) + (y1 - a) * b"
    by (simp add: algebra_simps)
  have 1: "\<bar>(y1 - a) * (y2 - b)\<bar> \<le> (relErr j * \<bar>a\<bar>) * (relErr k * \<bar>b\<bar>)"
    unfolding abs_mult using assms by (intro mult_mono) (simp_all add: closeTo_def relErr_nonneg)
  have 2: "\<bar>a * (y2 - b)\<bar> \<le> \<bar>a\<bar> * (relErr k * \<bar>b\<bar>)"
    unfolding abs_mult using assms by (intro mult_left_mono) (simp_all add: closeTo_def)
  have 3: "\<bar>(y1 - a) * b\<bar> \<le> (relErr j * \<bar>a\<bar>) * \<bar>b\<bar>"
    unfolding abs_mult using assms by (intro mult_right_mono) (simp_all add: closeTo_def)
  have "\<bar>y1 * y2 - a * b\<bar> \<le> (relErr j * \<bar>a\<bar>) * (relErr k * \<bar>b\<bar>) + \<bar>a\<bar> * (relErr k * \<bar>b\<bar>) + (relErr j * \<bar>a\<bar>) * \<bar>b\<bar>"
    unfolding d using 1 2 3 by linarith
  also have "\<dots> = ((1 + relErr j) * (1 + relErr k) - 1) * \<bar>a * b\<bar>"
    by (simp add: algebra_simps abs_mult)
  also have "\<dots> = relErr (j + k) * \<bar>a * b\<bar>" by (simp add: relErr_add)
  finally show ?thesis by (simp add: closeTo_def)
qed

lemma closeTo_round:
  assumes "closeTo v c (relErr j)" "\<bar>y - v\<bar> \<le> \<bar>v\<bar> / 2 ^ 53"
  shows "closeTo y c (relErr (Suc j))"
proof -
  have "\<bar>v\<bar> \<le> \<bar>c\<bar> + \<bar>v - c\<bar>" by linarith
  moreover have "\<bar>v - c\<bar> \<le> relErr j * \<bar>c\<bar>" using assms(1) by (simp add: closeTo_def)
  ultimately have "\<bar>v\<bar> \<le> \<bar>c\<bar> + relErr j * \<bar>c\<bar>" by linarith
  then have v: "\<bar>v\<bar> \<le> (1 + relErr j) * \<bar>c\<bar>" by (simp add: algebra_simps)
  have "\<bar>y - v\<bar> \<le> ((1 + relErr j) * \<bar>c\<bar>) / 2 ^ 53"
    using assms(2) v by (smt (verit) divide_right_mono zero_le_power)
  moreover have "\<bar>v - c\<bar> \<le> relErr j * \<bar>c\<bar>" using assms(1) by (simp add: closeTo_def)
  ultimately have "\<bar>y - c\<bar> \<le> ((1 + relErr j) * \<bar>c\<bar>) / 2 ^ 53 + relErr j * \<bar>c\<bar>" by linarith
  also have "\<dots> = ((1 + relErr j) * (1 + 1 / 2 ^ 53) - 1) * \<bar>c\<bar>"
    by (simp add: algebra_simps)
  also have "(1 + relErr j) * (1 + 1 / 2 ^ 53) - 1 = relErr (Suc j)"
    by (simp add: relErr_def)
  finally show ?thesis by (simp add: closeTo_def)
qed

lemma closeTo_bounds:
  assumes "closeTo v c e" "0 \<le> e" "e \<le> 1 / 2"
  shows "\<bar>c\<bar> / 2 \<le> \<bar>v\<bar>" "\<bar>v\<bar> \<le> 2 * \<bar>c\<bar>"
proof -
  have "\<bar>v - c\<bar> \<le> \<bar>c\<bar> / 2"
  proof -
    have "e * \<bar>c\<bar> \<le> 1 / 2 * \<bar>c\<bar>" using assms(3) by (intro mult_right_mono) simp_all
    with assms(1) show ?thesis by (simp add: closeTo_def)
  qed
  then show "\<bar>c\<bar> / 2 \<le> \<bar>v\<bar>" "\<bar>v\<bar> \<le> 2 * \<bar>c\<bar>" by linarith+
qed

lemma magnitude_normal:
  assumes "magnitude 1000 c" "\<bar>c\<bar> / 2 \<le> \<bar>v\<bar>" "\<bar>v\<bar> \<le> 2 * \<bar>c\<bar>"
  shows "1 / 2 ^ 1022 \<le> \<bar>v\<bar>" "\<bar>v\<bar> \<le> 2 ^ 1023"
proof -
  have c: "1 / 2 ^ 1000 \<le> \<bar>c\<bar>" "\<bar>c\<bar> \<le> 2 ^ 1000" using assms(1) by (simp_all add: magnitude_def)
  have "(1 / 2 ^ 1022 :: real) \<le> (1 / 2 ^ 1000) / 2" by simp
  also have "\<dots> \<le> \<bar>c\<bar> / 2" using c(1) by (intro divide_right_mono) simp_all
  finally show "1 / 2 ^ 1022 \<le> \<bar>v\<bar>" using assms(2) by linarith
  have "\<bar>v\<bar> \<le> 2 * 2 ^ 1000" using assms(3) c(2) by linarith
  also have "\<dots> \<le> (2 ^ 1023 :: real)" by simp
  finally show "\<bar>v\<bar> \<le> 2 ^ 1023" .
qed

lemma dmul_closeTo:
  assumes "closeTo y1 a (relErr j)" "closeTo y2 b (relErr k)" "j + k \<le> 6" "magnitude 1000 (a * b)"
  shows "\<exists>y. dmul (Some y1) (Some y2) = Some y \<and> closeTo y (a * b) (relErr (Suc (j + k)))"
proof -
  have r: "closeTo (y1 * y2) (a * b) (relErr (j + k))" using assms(1,2) by (rule closeTo_mult)
  note b = closeTo_bounds[OF r relErr_nonneg relErr_small[OF assms(3)]]
  note n = magnitude_normal[OF assms(4) b]
  from fl_normal[OF n] obtain y where y: "fl (y1 * y2) = Some y"
    "\<bar>y - y1 * y2\<bar> \<le> \<bar>y1 * y2\<bar> / 2 ^ 53" by blast
  from closeTo_round[OF r y(2)] y(1) show ?thesis by (simp add: dmul_def)
qed

lemma ddiv_closeTo:
  assumes "magnitude 1000 r"
  shows "\<exists>y. ddiv (Some 1) (Some r) = Some y \<and> closeTo y (1 / r) (relErr 1)"
proof -
  have r: "1 / 2 ^ 1000 \<le> \<bar>r\<bar>" "\<bar>r\<bar> \<le> 2 ^ 1000" using assms by (simp_all add: magnitude_def)
  have pos: "0 < \<bar>r\<bar>" using r(1) by (smt (verit) divide_pos_pos zero_less_power)
  then have nz: "r \<noteq> 0" by simp
  have "\<bar>1 / r\<bar> \<le> 2 ^ 1000"
  proof -
    have "1 / \<bar>r\<bar> \<le> 1 / (1 / 2 ^ 1000)" using r(1) by (intro divide_left_mono) simp_all
    then show ?thesis by simp
  qed
  moreover have "1 / 2 ^ 1000 \<le> \<bar>1 / r\<bar>"
  proof -
    have "1 / 2 ^ 1000 \<le> 1 / \<bar>r\<bar>" using r(2) pos by (intro divide_left_mono) simp_all
    then show ?thesis by simp
  qed
  ultimately have m: "magnitude 1000 (1 / r)" by (simp add: magnitude_def)
  have e: "closeTo (1 / r) (1 / r) (relErr 0)" by (rule closeTo_exact)
  have h: "t / 2 \<le> t" "t \<le> 2 * t" if "0 \<le> t" for t :: real using that by simp_all
  have b: "\<bar>1 / r\<bar> / 2 \<le> \<bar>1 / r\<bar>" "\<bar>1 / r\<bar> \<le> 2 * \<bar>1 / r\<bar>"
    by (rule h, rule abs_ge_zero)+
  note n = magnitude_normal[OF m b]
  from fl_normal[OF n] obtain y where y: "fl (1 / r) = Some y"
    "\<bar>y - 1 / r\<bar> \<le> \<bar>1 / r\<bar> / 2 ^ 53" by blast
  from closeTo_round[OF e y(2)] y(1) nz show ?thesis by (simp add: ddiv_def)
qed

lemma magnitude_mult: "magnitude m a \<Longrightarrow> magnitude n b \<Longrightarrow> magnitude (m + n) (a * b)"
proof -
  assume a: "magnitude m a" and b: "magnitude n b"
  have "(1 / 2 ^ m) * (1 / 2 ^ n) \<le> \<bar>a\<bar> * \<bar>b\<bar>"
    using a b by (intro mult_mono) (simp_all add: magnitude_def)
  moreover have "\<bar>a\<bar> * \<bar>b\<bar> \<le> 2 ^ m * 2 ^ n"
    using a b by (intro mult_mono) (simp_all add: magnitude_def)
  ultimately show ?thesis by (simp add: magnitude_def abs_mult power_add)
qed

lemma magnitude_inverse: "magnitude m r \<Longrightarrow> magnitude m (1 / r)"
proof -
  assume r: "magnitude m r"
  then have "1 / 2 ^ m \<le> \<bar>r\<bar>" by (simp add: magnitude_def)
  moreover have "(0::real) < 1 / 2 ^ m" by simp
  ultimately have pos: "0 < \<bar>r\<bar>" by linarith
  have "1 / \<bar>r\<bar> \<le> 1 / (1 / 2 ^ m)"
    using r pos by (intro divide_left_mono) (simp_all add: magnitude_def)
  moreover have "1 / 2 ^ m \<le> 1 / \<bar>r\<bar>" using r pos by (intro divide_left_mono) (simp_all add: magnitude_def)
  ultimately show ?thesis by (simp add: magnitude_def)
qed

lemma magnitude_mono: "magnitude m v \<Longrightarrow> m \<le> n \<Longrightarrow> magnitude n v"
proof -
  assume v: "magnitude m v" and mn: "m \<le> n"
  have "(2 ^ m :: real) \<le> 2 ^ n" using mn by (simp add: power_increasing)
  moreover have "(1 / 2 ^ n :: real) \<le> 1 / 2 ^ m"
    using mn by (intro divide_left_mono) (simp_all add: power_increasing)
  moreover from v have "1 / 2 ^ m \<le> \<bar>v\<bar>" "\<bar>v\<bar> \<le> 2 ^ m" by (simp_all add: magnitude_def)
  ultimately have "1 / 2 ^ n \<le> \<bar>v\<bar>" "\<bar>v\<bar> \<le> 2 ^ n" by linarith+
  then show ?thesis by (simp add: magnitude_def)
qed

text \<open>
  One conversion between two non-pivot currencies, applied to an approximation of \<open>c\<close>, is a
  division and two multiplications, so three more roundings: the result approximates
  \<open>c * (1 / f) * t\<close>.
\<close>

lemma convertWith64_closeTo:
  assumes "src \<noteq> SOS" "dst \<noteq> SOS" "table src = Some f" "table dst = Some t"
    and "magnitude 100 f" "magnitude 100 t"
    and "closeTo y c (relErr j)" "j \<le> 3" "magnitude 500 c"
  shows "\<exists>y'. convertWith64 table y src dst = Some y'
           \<and> closeTo y' (c * (1 / f) * t) (relErr (j + 3))"
proof -
  have mf: "magnitude 1000 f" using assms(5) by (rule magnitude_mono) simp
  from ddiv_closeTo[OF mf] obtain q where q: "ddiv (Some 1) (Some f) = Some q"
    "closeTo q (1 / f) (relErr 1)" by blast
  have "magnitude (500 + 100) (c * (1 / f))"
    using assms(9) magnitude_inverse[OF assms(5)] by (rule magnitude_mult)
  then have m6: "magnitude 600 (c * (1 / f))" by simp
  then have m1: "magnitude 1000 (c * (1 / f))" by (rule magnitude_mono) simp
  have j1: "j + 1 \<le> 6" using assms(8) by simp
  from dmul_closeTo[OF assms(7) q(2) j1 m1] obtain s where s: "dmul (Some y) (Some q) = Some s"
    "closeTo s (c * (1 / f)) (relErr (Suc (j + 1)))" by blast
  have "magnitude (600 + 100) (c * (1 / f) * t)"
    using m6 assms(6) by (rule magnitude_mult)
  then have m2: "magnitude 1000 (c * (1 / f) * t)" by (rule magnitude_mono) simp
  have j2: "Suc (j + 1) + 0 \<le> 6" using assms(8) by simp
  from dmul_closeTo[OF s(2) closeTo_exact j2 m2] obtain y' where y': "dmul (Some s) (Some t) = Some y'"
    "closeTo y' (c * (1 / f) * t) (relErr (Suc (Suc (j + 1) + 0)))" by blast
  have "j + 3 = Suc (Suc (j + 1) + 0)" by simp
  then have "closeTo y' (c * (1 / f) * t) (relErr (j + 3))" using y'(2) by (simp only:)
  moreover have "convertWith64 table y src dst = Some y'"
    using assms(1-4) q(1) s(1) y'(1) by (simp add: convertWith64_def convertBy_def)
  ultimately show ?thesis by blast
qed

lemma convertWith64_zero:
  assumes "src \<noteq> SOS" "dst \<noteq> SOS" "table src = Some f" "table dst = Some t"
    and "magnitude 100 f"
  shows "convertWith64 table 0 src dst = Some 0"
proof -
  have mf: "magnitude 1000 f" using assms(5) by (rule magnitude_mono) simp
  from ddiv_closeTo[OF mf] obtain q where q: "ddiv (Some 1) (Some f) = Some q" by blast
  show ?thesis
    using assms(1-4) q by (simp add: convertWith64_def convertBy_def dmul_def fl_def)
qed

lemma magnitude_positive: "1 / 2 ^ m \<le> v \<Longrightarrow> v \<le> 2 ^ m \<Longrightarrow> magnitude m v \<and> 0 < v"
proof -
  assume lo: "1 / 2 ^ m \<le> v" and hi: "v \<le> 2 ^ m"
  have "(0::real) < 1 / 2 ^ m" by simp
  with lo have "0 < v" by linarith
  with lo hi show ?thesis by (simp add: magnitude_def)
qed

lemma getRates_offline_seed:
  "getRates seed (optionsWith p True) emptyWorld = (seed, emptyWorld)"
  by (simp add: getRates_def optionsWith_def emptyWorld_def readCache_def getMemoryCache_def
      tryReadJSON_def)

section \<open>Conversion round trip\<close>

text \<open>
  Claim C7, as the specification states it, fails: the amount is not bounded. With the
  positive rates \<open>1/1024\<close> for the US dollar and \<open>1/512\<close> for the euro, both doubles, and the
  amount \<open>2\<^sup>1\<^sup>0\<^sup>2\<^sup>0\<close>, a double, the conversion from dollars to euros first computes
  \<open>2\<^sup>1\<^sup>0\<^sup>2\<^sup>0 * 1024 = 2\<^sup>1\<^sup>0\<^sup>3\<^sup>0\<close>, which is beyond the largest double. The conversion yields no finite
  number, and the round trip yields none.
\<close>

theorem convert64_overflow:
  "binaryTable USD = Some (1 / 1024) \<and> binaryTable EUR = Some (1 / 512)
   \<and> fst (convert64 binaryTable (2 ^ 1020) USD EUR (optionsWith (unreachable ''mock'') True)
          emptyWorld) = None
   \<and> roundTrip64 binaryTable (2 ^ 1020) USD EUR (optionsWith (unreachable ''mock'') True)
          emptyWorld = None"
proof -
  have t: "binaryTable USD = Some (1 / 1024)" "binaryTable EUR = Some (1 / 512)"
    by (simp_all add: binaryTable_def)
  have "fl (2 ^ 10) = Some (2 ^ 10)" by (rule fl_pow2) simp
  then have d: "ddiv (Some 1) (Some (1 / 1024)) = Some 1024"
    by (simp add: ddiv_def)
  have "fl (2 ^ 1030) = None" by (rule fl_overflow_pow2) simp
  moreover have "(2 ^ 1020 * 1024 :: real) = 2 ^ 1030" by simp
  ultimately have o: "fl (2 ^ 1020 * 1024) = None" by (simp only:)
  have c: "convertWith64 binaryTable (2 ^ 1020) USD EUR = None"
    using t d o by (simp add: convertWith64_def convertBy_def dmul_def)
  have "convert64 binaryTable (2 ^ 1020) USD EUR (optionsWith (unreachable ''mock'') True) emptyWorld
      = (None, emptyWorld)"
    using c by (simp add: convert64_def convertOn_def getRates_offline_seed convertWith64_def)
  with t show ?thesis by (simp add: roundTrip64_def)
qed

text \<open>
  Claim C7, amended. For two non-pivot currencies whose entries in the rate table lie
  between \<open>2\<^sup>-\<^sup>1\<^sup>0\<^sup>0\<close> and \<open>2\<^sup>1\<^sup>0\<^sup>0\<close>, and an amount that is zero or lies between \<open>2\<^sup>-\<^sup>3\<^sup>0\<^sup>0\<close> and
  \<open>2\<^sup>3\<^sup>0\<^sup>0\<close> in absolute value, converting the amount and converting the result back, in the
  arithmetic of doubles, yields a finite number that is the amount within a relative error
  of \<open>10\<^sup>-\<^sup>6\<close>, when both conversions see the same table. The six roundings of the two
  conversions stay in the normal range, and each adds a relative error of at most \<open>2\<^sup>-\<^sup>5\<^sup>3\<close>.
\<close>

theorem convert64_round_trip:
  assumes "a \<noteq> SOS" "b \<noteq> SOS"
    and "table a = Some ra" "1 / 2 ^ 100 \<le> ra" "ra \<le> 2 ^ 100"
    and "table b = Some rb" "1 / 2 ^ 100 \<le> rb" "rb \<le> 2 ^ 100"
    and "x = 0 \<or> 1 / 2 ^ 300 \<le> \<bar>x\<bar> \<and> \<bar>x\<bar> \<le> 2 ^ 300"
    and "fst (getRates seed opts w) = table"
    and "fst (getRates seed opts (snd (getRates seed opts w))) = table"
  shows "\<exists>z. roundTrip64 seed x a b opts w = Some z \<and> \<bar>z - x\<bar> \<le> 1 / 10 ^ 6 * \<bar>x\<bar>"
proof (cases "a = b")
  case True
  then show ?thesis by (simp add: roundTrip64_def convert64_def convertOn_def)
next
  case False
  obtain w1 where g1: "getRates seed opts w = (table, w1)"
    using assms(10) by (cases "getRates seed opts w") simp
  obtain w2 where g2: "getRates seed opts w1 = (table, w2)"
    using assms(11) g1 by (cases "getRates seed opts w1") simp
  from magnitude_positive[OF assms(4,5)] have ma: "magnitude 100 ra" and pa: "0 < ra"
    by simp_all
  from magnitude_positive[OF assms(7,8)] have mb: "magnitude 100 rb" and pb: "0 < rb"
    by simp_all
  have trip: "roundTrip64 seed x a b opts w = convertWith64 table y b a"
    if "convertWith64 table x a b = Some y" for y
    using that False g1 g2
    by (auto simp: roundTrip64_def convert64_def convertOn_def convertWith64_def)
  show ?thesis
  proof (cases "x = 0")
    case True
    have "convertWith64 table 0 a b = Some 0"
      using assms(1,2,3,6) ma by (rule convertWith64_zero)
    moreover have "convertWith64 table 0 b a = Some 0"
      using assms(2,1,6,3) mb by (rule convertWith64_zero)
    ultimately show ?thesis using True trip[of 0] by simp
  next
    case nz: False
    with assms(9) have mx: "magnitude 300 x" by (simp add: magnitude_def)
    then have mx5: "magnitude 500 x" by (rule magnitude_mono) simp
    from convertWith64_closeTo[OF assms(1,2,3,6) ma mb closeTo_exact _ mx5]
    obtain y where y: "convertWith64 table x a b = Some y"
      "closeTo y (x * (1 / ra) * rb) (relErr (0 + 3))" by auto
    have "magnitude (300 + 100) (x * (1 / ra))"
      using mx magnitude_inverse[OF ma] by (rule magnitude_mult)
    then have "magnitude (300 + 100 + 100) (x * (1 / ra) * rb)"
      using mb by (rule magnitude_mult)
    then have my: "magnitude 500 (x * (1 / ra) * rb)" by simp
    have y3: "closeTo y (x * (1 / ra) * rb) (relErr 3)" using y(2) by simp
    from convertWith64_closeTo[OF assms(2,1,6,3) mb ma y3 _ my]
    obtain z where z: "convertWith64 table y b a = Some z"
      "closeTo z (x * (1 / ra) * rb * (1 / rb) * ra) (relErr (3 + 3))" by auto
    have "x * (1 / ra) * rb * (1 / rb) * ra = x" using pa pb by simp
    with z(2) have "\<bar>z - x\<bar> \<le> relErr 6 * \<bar>x\<bar>" by (simp add: closeTo_def)
    also have "\<dots> \<le> 1 / 10 ^ 6 * \<bar>x\<bar>"
      using relErr_6 by (intro mult_right_mono) simp_all
    finally have "\<bar>z - x\<bar> \<le> 1 / 10 ^ 6 * \<bar>x\<bar>" .
    with trip[OF y(1)] z(1) show ?thesis by simp
  qed
qed

theorem convert64_round_trip_witness:
  "\<exists>z. roundTrip64 seedFixture 250 USD EUR (optionsWith (unreachable ''mock'') True) emptyWorld
         = Some z
       \<and> \<bar>z - 250\<bar> \<le> 1 / 10 ^ 6 * \<bar>250\<bar>"
proof -
  let ?o = "optionsWith (unreachable ''mock'') True"
  have s: "seedFixture USD = Some 0.00175" "seedFixture EUR = Some 0.0016"
    by (simp_all add: seedFixture_def)
  show ?thesis
    by (rule convert64_round_trip[of USD EUR seedFixture "0.00175" "0.0016" 250 seedFixture
          ?o emptyWorld])
       (simp_all add: getRates_offline_seed s)
qed
section \<open>Calendar dates and their ISO strings\<close>

text \<open>
  From 1970-01-01 on and up to the year 9999 the ISO date strings are ordered as the days
  they denote, so the string comparison of the cache pruning is a comparison of dates.
\<close>

lemma daysInMonth_pos: "Suc 0 \<le> daysInMonth y m"
  by (simp add: daysInMonth_def)

lemma nextDay_valid: "validDate c \<Longrightarrow> validDate (nextDay c)"
  by (cases c) (auto simp: validDate_def daysInMonth_pos)

lemma nextDay_before: "validDate c \<Longrightarrow> before c (nextDay c)"
  by (cases c) (auto simp: validDate_def before_def)

lemma before_trans: "before a b \<Longrightarrow> before b c \<Longrightarrow> before a c"
  by (cases a; cases b; cases c) (auto simp: before_def)

lemma forward_valid: "validDate c \<Longrightarrow> validDate (forward n c)"
  by (induction n arbitrary: c) (simp_all add: nextDay_valid)

lemma forward_before: "validDate c \<Longrightarrow> before c (forward (Suc n) c)"
proof (induction n arbitrary: c)
  case 0
  then show ?case by (simp add: nextDay_before)
next
  case (Suc n)
  have "before c (nextDay c)" using Suc.prems by (rule nextDay_before)
  moreover have "before (nextDay c) (forward (Suc n) (nextDay c))"
    using Suc.prems by (intro Suc.IH nextDay_valid)
  ultimately show ?case using before_trans by simp
qed

lemma forward_add: "forward (n + k) c = forward k (forward n c)"
  by (induction n arbitrary: c) simp_all

lemma epoch_valid: "validDate (1970, 1, 1)"
  by (simp add: validDate_def daysInMonth_def)

lemma civil_valid: "0 \<le> d \<Longrightarrow> validDate (civil d)"
  using forward_valid[OF epoch_valid] by (simp add: civil_def)

lemma civil_before:
  assumes "0 \<le> d1" "d1 < d2"
  shows "before (civil d1) (civil d2)"
proof -
  from assms have "nat d1 < nat d2" by simp
  from less_imp_Suc_add[OF this] obtain k where "nat d2 = Suc (nat d1 + k)" by blast
  then have k: "nat d2 = nat d1 + Suc k" by simp
  have "forward (nat d2) (1970, 1, 1) = forward (Suc k) (forward (nat d1) (1970, 1, 1))"
    by (simp only: k forward_add)
  then have "civil d2 = forward (Suc k) (civil d1)"
    using assms by (simp add: civil_def)
  moreover have "validDate (civil d1)" using assms by (simp add: civil_valid)
  ultimately show ?thesis by (simp add: forward_before del: forward.simps)
qed

lemma digit_nth: "i < 10 \<Longrightarrow> of_char (''0123456789'' ! i) = (48::nat) + i"
proof -
  assume "i < 10"
  then have "i = 0 \<or> i = 1 \<or> i = 2 \<or> i = 3 \<or> i = 4 \<or> i = 5 \<or> i = 6 \<or> i = 7 \<or> i = 8 \<or> i = 9"
    by arith
  then show ?thesis by auto
qed

lemma digit_code: "of_char (digit n) = (48::nat) + n mod 10"
  by (simp add: digit_def digit_nth)

lemma digit_less: "digit a < digit b \<longleftrightarrow> a mod 10 < b mod 10"
  by (simp add: less_char_def digit_code)

lemma digit_eq: "digit a = digit b \<longleftrightarrow> a mod 10 = b mod 10"
proof
  assume "digit a = digit b"
  then have "(of_char (digit a) :: nat) = of_char (digit b)" by simp
  then show "a mod 10 = b mod 10" by (simp add: digit_code)
next
  assume "a mod 10 = b mod 10"
  then show "digit a = digit b" by (simp add: digit_def)
qed

lemma divmod_less:
  fixes a b k :: nat
  assumes "a < b"
  shows "a div k < b div k \<or> a div k = b div k \<and> a mod k < b mod k"
proof -
  have le: "a div k \<le> b div k" using assms by (simp add: div_le_mono)
  show ?thesis
  proof (cases "a div k = b div k")
    case True
    have "a = k * (a div k) + a mod k" "b = k * (b div k) + b mod k" by simp_all
    with True assms have "a mod k < b mod k" by (metis nat_add_left_cancel_less)
    with True show ?thesis by simp
  next
    case False
    with le show ?thesis by simp
  qed
qed

lemma pad2_less:
  assumes "b < 100" "a < b"
  shows "pad2 a @ xs < pad2 b @ ys"
proof -
  have "a div 10 < 10" "b div 10 < 10" using assms by simp_all
  then have m: "a div 10 mod 10 = a div 10" "b div 10 mod 10 = b div 10" by simp_all
  from divmod_less[OF assms(2), of 10] show ?thesis
    by (auto simp: pad2_def digit_less digit_eq m)
qed

lemma pad2_same: "pad2 a @ xs < pad2 a @ ys \<longleftrightarrow> xs < ys"
  by (simp add: pad2_def)

lemma pad4_split: "pad4 n = pad2 (n div 100) @ pad2 (n mod 100)"
proof -
  have "n div 100 div 10 = n div 1000" by (simp add: div_mult2_eq)
  moreover have "(n mod 100 div 10) mod 10 = (n div 10) mod 10"
  proof -
    have "n mod 100 = 10 * (n div 10 mod 10) + n mod 10"
      using mod_mult2_eq[of n 10 10] by simp
    then have "n mod 100 div 10 = n div 10 mod 10" by simp
    then show ?thesis by simp
  qed
  moreover have "n mod 100 mod 10 = n mod 10"
    by (simp add: mod_mod_cancel)
  ultimately show ?thesis
    by (simp add: pad4_def pad2_def digit_eq)
qed

lemma pad4_less:
  assumes "b < 10000" "a < b"
  shows "pad4 a @ xs < pad4 b @ ys"
proof -
  have b: "b div 100 < 100" "b mod 100 < 100" using assms by simp_all
  from divmod_less[OF assms(2), of 100] show ?thesis
  proof
    assume "a div 100 < b div 100"
    then show ?thesis using b pad2_less by (simp add: pad4_split)
  next
    assume "a div 100 = b div 100 \<and> a mod 100 < b mod 100"
    then show ?thesis using b pad2_less by (simp add: pad4_split pad2_same)
  qed
qed

lemma pad4_same: "pad4 a @ xs < pad4 a @ ys \<longleftrightarrow> xs < ys"
  by (simp add: pad4_def)



lemma daysInMonth_le: "daysInMonth y m \<le> 31"
  by (simp add: daysInMonth_def)

lemma civil_year_lower: "0 \<le> d \<Longrightarrow> 1970 \<le> fst (civil d)"
proof (cases "d = 0")
  case True
  then show ?thesis by (simp add: civil_def)
next
  case False
  assume "0 \<le> d"
  with False have "before (civil 0) (civil d)" by (intro civil_before) simp_all
  moreover have "civil 0 = (1970, 1, 1)" by (simp add: civil_def)
  ultimately show ?thesis by (cases "civil d") (auto simp: before_def)
qed

lemma isoDate_mono:
  assumes "0 \<le> d1" "d1 < d2" "fst (civil d2) \<le> 9999"
  shows "isoDate d1 < isoDate d2"
proof -
  obtain y1 m1 e1 where c1: "civil d1 = (y1, m1, e1)" by (cases "civil d1")
  obtain y2 m2 e2 where c2: "civil d2 = (y2, m2, e2)" by (cases "civil d2")
  have b: "before (y1, m1, e1) (y2, m2, e2)"
    using civil_before[OF assms(1,2)] c1 c2 by simp
  have v1: "validDate (y1, m1, e1)" using civil_valid[OF assms(1)] c1 by simp
  have v2: "validDate (y2, m2, e2)" using civil_valid[of d2] assms c2 by simp
  have y1: "0 \<le> y1" using civil_year_lower[OF assms(1)] c1 by simp
  have y2: "y2 \<le> 9999" using assms(3) c2 by simp
  have m2: "m2 < 100" using v2 by (simp add: validDate_def)
  have "e2 \<le> 31" using v2 daysInMonth_le[of y2 m2] by (simp add: validDate_def)
  then have e2: "e2 < 100" by simp
  from b consider "y1 < y2" | "y1 = y2" "m1 < m2" | "y1 = y2" "m1 = m2" "e1 < e2"
    by (auto simp: before_def)
  then have "pad4 (nat y1) @ ''-'' @ pad2 m1 @ ''-'' @ pad2 e1
           < pad4 (nat y2) @ ''-'' @ pad2 m2 @ ''-'' @ pad2 e2"
  proof cases
    case 1
    then have "nat y1 < nat y2" "nat y2 < 10000" using y1 y2 by simp_all
    then show ?thesis by (intro pad4_less)
  next
    case 2
    have "pad2 m1 @ ''-'' @ pad2 e1 < pad2 m2 @ ''-'' @ pad2 e2"
      using 2 m2 by (intro pad2_less)
    with 2 show ?thesis by (simp add: pad4_same)
  next
    case 3
    have "pad2 e1 @ [] < pad2 e2 @ []" using 3 e2 by (intro pad2_less)
    with 3 show ?thesis by (simp add: pad4_same pad2_same)
  qed
  then show ?thesis by (simp add: isoDate_def c1 c2)
qed

lemma civil_year_mono:
  assumes "0 \<le> d1" "d1 \<le> d2"
  shows "fst (civil d1) \<le> fst (civil d2)"
proof (cases "d1 = d2")
  case True
  then show ?thesis by simp
next
  case False
  obtain y1 m1 e1 where c1: "civil d1 = (y1, m1, e1)" by (cases "civil d1")
  obtain y2 m2 e2 where c2: "civil d2 = (y2, m2, e2)" by (cases "civil d2")
  from False assms have "d1 < d2" by simp
  from civil_before[OF assms(1) this] have "before (y1, m1, e1) (y2, m2, e2)"
    by (simp add: c1 c2)
  then have "y1 \<le> y2" by (auto simp: before_def)
  then show ?thesis by (simp add: c1 c2)
qed

lemma isoDate_less_iff:
  assumes "0 \<le> d1" "0 \<le> d2" "fst (civil d1) \<le> 9999" "fst (civil d2) \<le> 9999"
  shows "isoDate d1 < isoDate d2 \<longleftrightarrow> d1 < d2"
proof
  assume "d1 < d2"
  then show "isoDate d1 < isoDate d2" using assms by (intro isoDate_mono)
next
  assume l: "isoDate d1 < isoDate d2"
  show "d1 < d2"
  proof (rule ccontr)
    assume "\<not> d1 < d2"
    then consider "d1 = d2" | "d2 < d1" by linarith
    then show False
    proof cases
      case 1
      with l show False by simp
    next
      case 2
      then have "isoDate d2 < isoDate d1" using assms by (intro isoDate_mono)
      with l show False by simp
    qed
  qed
qed

lemma subseq_subset: "subseq xs ys \<Longrightarrow> set xs \<subseteq> set ys"
  by (induction rule: list_emb.induct) auto

lemma subseq_sorted_wrt: "subseq xs ys \<Longrightarrow> sorted_wrt P ys \<Longrightarrow> sorted_wrt P xs"
proof (induction rule: list_emb.induct)
  case (list_emb_Nil ys)
  then show ?case by simp
next
  case (list_emb_Cons xs ys y)
  then show ?case by simp
next
  case (list_emb_Cons2 x y xs ys)
  then have "set xs \<subseteq> set ys" by (intro subseq_subset)
  with list_emb_Cons2 show ?case by auto
qed

lemma isoDate_sorted:
  assumes "subseq ks [i..j]" "0 \<le> i" "fst (civil j) \<le> 9999"
  shows "sorted_wrt (<) (map isoDate ks)"
proof -
  have s: "sorted_wrt (<) ks" using assms(1) by (rule subseq_sorted_wrt) simp
  have "set ks \<subseteq> set [i..j]" using assms(1) by (rule subseq_subset)
  then have r: "\<forall>k\<in>set ks. 0 \<le> k \<and> k \<le> j" using assms(2) by auto
  have "\<And>a b. a \<in> set ks \<Longrightarrow> b \<in> set ks \<Longrightarrow> a < b \<Longrightarrow> isoDate a < isoDate b"
  proof -
    fix a b assume "a \<in> set ks" "b \<in> set ks" "a < b"
    with r have "0 \<le> a" "0 \<le> b" "b \<le> j" by auto
    then have "fst (civil b) \<le> 9999" using civil_year_mono[of b j] assms(3) by simp
    with \<open>0 \<le> a\<close> \<open>a < b\<close> show "isoDate a < isoDate b" by (intro isoDate_mono)
  qed
  with s show ?thesis
    by (simp add: sorted_wrt_map) (rule sorted_wrt_mono_rel)
qed

section \<open>Historical cache: retention\<close>

text \<open>
  In a zone without daylight saving time a step of \<open>k\<close> local days is a step of \<open>k\<close> times 24
  hours. No function of the historical service changes the zone.
\<close>

lemma addLocalDays_fixed: "dstPeriods z = [] \<Longrightarrow> addLocalDays z k t = t + k * msPerDay"
  by (simp add: addLocalDays_def utcOffset_def localOffset_def inDst_def Let_def)

lemma cacheRates_zone [simp]: "zone (cacheRates d r w) = zone w"
  by (simp add: cacheRates_def Date_now_def tryWriteJSON_historical_def Let_def)

lemma getHistoricalRates_zone [simp]: "zone (snd (getHistoricalRates cfg d w)) = zone w"
  by (simp add: getHistoricalRates_def split: option.splits prod.splits sum.splits)

lemma cacheRates_file:
  "writable w \<Longrightarrow> historicalFile (cacheRates d r w)
     = Some (pruned (cutoffStr (zone w) (clock w (ticks w))) ((getCachedRates w)(d \<mapsto> r)))"
  by (simp add: cacheRates_def Date_now_def tryWriteJSON_historical_def pruned_def Let_def)

lemma cacheRates_file_unwritable:
  "\<not> writable w \<Longrightarrow> historicalFile (cacheRates d r w) = historicalFile w"
  by (simp add: cacheRates_def Date_now_def tryWriteJSON_historical_def Let_def)

lemma getCachedRates_trace [simp]: "getCachedRates (w\<lparr>trace := tr\<rparr>) = getCachedRates w"
  by (simp add: getCachedRates_def tryReadJSON_historical_def)

lemma getHistoricalRates_file:
  "historicalFile (snd (getHistoricalRates cfg d w)) = historicalFile w
   \<or> historicalFile (snd (getHistoricalRates cfg d w))
       = Some (pruned (cutoffStr (zone w) (clock w (ticks w)))
            ((getCachedRates w)(d \<mapsto> projr (fst (getHistoricalRates cfg d w)))))"
proof (cases "writable w")
  case True
  then have "writable (w\<lparr>trace := tr\<rparr>)" for tr by simp
  from cacheRates_file[OF this] show ?thesis
    by (auto simp: getHistoricalRates_def split: option.splits prod.splits sum.splits)
next
  case False
  then have "\<not> writable (w\<lparr>trace := tr\<rparr>)" for tr by simp
  from cacheRates_file_unwritable[OF this] show ?thesis
    by (auto simp: getHistoricalRates_def split: option.splits prod.splits sum.splits)
qed

lemma cutoffStr_cutoffDay: "cutoffStr z now = isoDate (cutoffDay z now)"
  by (simp add: cutoffStr_def cutoffDay_def isoString_def)

text \<open>
  Claim C5. Every write of the historical cache goes through \<open>cacheRates\<close>. When the write
  succeeds, the persisted cache has no key below the cutoff string (the UTC date of the
  instant 90 local days before the clock's reading), whichever date is being stored, and
  every other key of the old cache and the stored date keep their tables. Whenever
  \<open>getHistoricalRates\<close> changes the file, the file is pruned in this way. For dates from 1970
  to 9999 this is a comparison of days: the entry of a day remains exactly when the day is
  not before the day of the cutoff.
\<close>

theorem cacheRates_retention:
  "(writable w \<longrightarrow>
      (\<exists>c. historicalFile (cacheRates d r w) = Some c
          \<and> (\<forall>k. k < cutoffStr (zone w) (clock w (ticks w)) \<longrightarrow> c k = None)
          \<and> (\<forall>k. \<not> k < cutoffStr (zone w) (clock w (ticks w)) \<longrightarrow> c k = ((getCachedRates w)(d \<mapsto> r)) k)))
   \<and> (historicalFile (snd (getHistoricalRates cfg d w)) \<noteq> historicalFile w \<longrightarrow>
      (\<exists>c r'. historicalFile (snd (getHistoricalRates cfg d w)) = Some c
          \<and> fst (getHistoricalRates cfg d w) = Inr r'
          \<and> (\<forall>k. k < cutoffStr (zone w) (clock w (ticks w)) \<longrightarrow> c k = None)
          \<and> (\<forall>k. \<not> k < cutoffStr (zone w) (clock w (ticks w)) \<longrightarrow> c k = ((getCachedRates w)(d \<mapsto> r')) k)))
   \<and> (writable w \<and> 0 \<le> day \<and> 0 \<le> cutoffDay (zone w) (clock w (ticks w))
        \<and> fst (civil day) \<le> 9999 \<and> fst (civil (cutoffDay (zone w) (clock w (ticks w)))) \<le> 9999 \<longrightarrow>
      (\<exists>c. historicalFile (cacheRates d r w) = Some c
          \<and> c (isoDate day) = (if day < cutoffDay (zone w) (clock w (ticks w)) then None
                                else ((getCachedRates w)(d \<mapsto> r)) (isoDate day))))"
proof (intro conjI impI)
  assume "writable w"
  from cacheRates_file[OF this, of d r]
  show "\<exists>c. historicalFile (cacheRates d r w) = Some c
          \<and> (\<forall>k. k < cutoffStr (zone w) (clock w (ticks w)) \<longrightarrow> c k = None)
          \<and> (\<forall>k. \<not> k < cutoffStr (zone w) (clock w (ticks w)) \<longrightarrow> c k = ((getCachedRates w)(d \<mapsto> r)) k)"
    by (simp add: pruned_def)
next
  assume ch: "historicalFile (snd (getHistoricalRates cfg d w)) \<noteq> historicalFile w"
  then have ok: "\<exists>r'. fst (getHistoricalRates cfg d w) = Inr r'"
    by (auto simp: getHistoricalRates_def split: option.splits prod.splits sum.splits)
  then obtain r' where r': "fst (getHistoricalRates cfg d w) = Inr r'" by blast
  from getHistoricalRates_file[of cfg d w] ch r'
  have "historicalFile (snd (getHistoricalRates cfg d w))
       = Some (pruned (cutoffStr (zone w) (clock w (ticks w))) ((getCachedRates w)(d \<mapsto> r')))"
    by simp
  with r' show "\<exists>c r'. historicalFile (snd (getHistoricalRates cfg d w)) = Some c
          \<and> fst (getHistoricalRates cfg d w) = Inr r'
          \<and> (\<forall>k. k < cutoffStr (zone w) (clock w (ticks w)) \<longrightarrow> c k = None)
          \<and> (\<forall>k. \<not> k < cutoffStr (zone w) (clock w (ticks w)) \<longrightarrow> c k = ((getCachedRates w)(d \<mapsto> r')) k)"
    by (simp add: pruned_def)
next
  assume a: "writable w \<and> 0 \<le> day \<and> 0 \<le> cutoffDay (zone w) (clock w (ticks w))
        \<and> fst (civil day) \<le> 9999 \<and> fst (civil (cutoffDay (zone w) (clock w (ticks w)))) \<le> 9999"
  then have "isoDate day < isoDate (cutoffDay (zone w) (clock w (ticks w)))
      \<longleftrightarrow> day < cutoffDay (zone w) (clock w (ticks w))"
    by (intro isoDate_less_iff) simp_all
  with a cacheRates_file[of w d r]
  show "\<exists>c. historicalFile (cacheRates d r w) = Some c
          \<and> c (isoDate day) = (if day < cutoffDay (zone w) (clock w (ticks w)) then None
                                else ((getCachedRates w)(d \<mapsto> r)) (isoDate day))"
    by (simp add: pruned_def cutoffStr_cutoffDay)
qed

lemma historyWorld_cutoffDay:
  "cutoffDay (zone historyWorld) (clock historyWorld (ticks historyWorld)) = 10"
  by (simp add: cutoffDay_def addLocalDays_fixed historyWorld_def emptyWorld_def utcZone_def
      msPerDay_def)

lemma iso_10: "isoDate 10 = ''1970-01-11''"
  by code_simp

lemma historyWorld_cutoff:
  "cutoffStr (zone historyWorld) (clock historyWorld (ticks historyWorld)) = ''1970-01-11''"
  by (simp add: cutoffStr_cutoffDay historyWorld_cutoffDay iso_10)

lemma iso_99_101:
  "isoDate 99 = ''1970-04-10''" "isoDate 100 = ''1970-04-11''" "isoDate 101 = ''1970-04-12''"
  by code_simp+

lemma civil_examples: "civil 4 = (1970, 1, 5)" "civil 10 = (1970, 1, 11)" "civil 99 = (1970, 4, 10)"
  by code_simp+

lemma iso_4: "isoDate 4 = ''1970-01-05''"
  by code_simp

theorem cacheRates_retention_witness:
  "\<exists>c. historicalFile (cacheRates ''1970-04-11'' scenarioTable historyWorld) = Some c
       \<and> c ''1970-01-05'' = None
       \<and> c ''1970-04-10'' = Some seedFixture
       \<and> c ''1970-04-11'' = Some scenarioTable
       \<and> c (isoDate 4) = None
       \<and> c (isoDate 99) = Some seedFixture"
proof -
  have wr: "writable historyWorld" by (simp add: historyWorld_def emptyWorld_def)
  with cacheRates_retention[of historyWorld "''1970-04-11''" scenarioTable]
  obtain c where c: "historicalFile (cacheRates ''1970-04-11'' scenarioTable historyWorld) = Some c"
    and old: "\<forall>k. k < cutoffStr (zone historyWorld) (clock historyWorld (ticks historyWorld)) \<longrightarrow> c k = None"
    and new: "\<forall>k. \<not> k < cutoffStr (zone historyWorld) (clock historyWorld (ticks historyWorld)) \<longrightarrow>
        c k = ((getCachedRates historyWorld)(''1970-04-11'' \<mapsto> scenarioTable)) k"
    by blast
  have n1: "\<not> ''1970-04-10'' < cutoffStr (zone historyWorld) (clock historyWorld (ticks historyWorld))"
    and n2: "\<not> ''1970-04-11'' < cutoffStr (zone historyWorld) (clock historyWorld (ticks historyWorld))"
    and o1: "''1970-01-05'' < cutoffStr (zone historyWorld) (clock historyWorld (ticks historyWorld))"
    by (simp_all add: historyWorld_cutoff)
  have look: "getCachedRates historyWorld ''1970-04-10'' = Some seedFixture"
    by (simp add: getCachedRates_def tryReadJSON_historical_def historyWorld_def)
  have k1: "c ''1970-01-05'' = None" using old o1 by blast
  have k2: "c ''1970-04-10'' = Some seedFixture"
    using new[rule_format, OF n1] look by simp
  have k3: "c ''1970-04-11'' = Some scenarioTable"
    using new[rule_format, OF n2] by simp
  note byDay = cacheRates_retention[where w = historyWorld and d = "''1970-04-11''"
      and r = scenarioTable,
      THEN conjunct2, THEN conjunct2, rule_format]
  have "\<exists>c'. historicalFile (cacheRates ''1970-04-11'' scenarioTable historyWorld) = Some c'
      \<and> c' (isoDate 4) = (if 4 < cutoffDay (zone historyWorld) (clock historyWorld (ticks historyWorld)) then None
           else ((getCachedRates historyWorld)(''1970-04-11'' \<mapsto> scenarioTable)) (isoDate 4))"
    by (rule byDay) (simp add: wr historyWorld_cutoffDay civil_examples)
  then have k4: "c (isoDate 4) = None" using c by (auto simp: historyWorld_cutoffDay)
  have "\<exists>c'. historicalFile (cacheRates ''1970-04-11'' scenarioTable historyWorld) = Some c'
      \<and> c' (isoDate 99) = (if 99 < cutoffDay (zone historyWorld) (clock historyWorld (ticks historyWorld)) then None
           else ((getCachedRates historyWorld)(''1970-04-11'' \<mapsto> scenarioTable)) (isoDate 99))"
    by (rule byDay) (simp add: wr historyWorld_cutoffDay civil_examples)
  then have k5: "c (isoDate 99) = Some seedFixture"
    using c look by (auto simp: historyWorld_cutoffDay iso_99_101)
  from c k1 k2 k3 k4 k5 show ?thesis by blast
qed


text \<open>
  The cutoff follows local time. In New York at 1970-07-01T23:30Z, which is 19:30 under
  daylight saving time, the instant 90 local days earlier is 19:30 standard time on
  1970-04-02, that is 1970-04-03T00:30Z: the cutoff string is 1970-04-03, not the date 90
  days before the UTC date of the clock's reading.
\<close>

lemma cutoffStr_newYork:
  "cutoffStr newYork1970 (181 * msPerDay + 23 * msPerHour + 1800000) = ''1970-04-03''"
proof -
  have "addLocalDays newYork1970 (- 90) (181 * msPerDay + 23 * msPerHour + 1800000)
      = 92 * msPerDay + 1800000"
    by (simp add: addLocalDays_def utcOffset_def localOffset_def inDst_def newYork1970_def
        msPerDay_def msPerHour_def Let_def)
  moreover have "(92 * msPerDay + 1800000) div msPerDay = 92" by (simp add: msPerDay_def)
  moreover have "isoDate 92 = ''1970-04-03''" by code_simp
  ultimately show ?thesis by (simp add: cutoffStr_def isoString_def)
qed
section \<open>Rate history over a range of days\<close>

text \<open>
  In a zone without daylight saving time the loop is a left fold over the days of the
  range.
\<close>

lemma historyLoop_fold:
  "dstPeriods (zone w) = [] \<Longrightarrow>
   historyLoop cfg cur base (i * msPerDay) (j * msPerDay) res w
     = foldl (visitDay cfg cur base) (res, w) [i..j]"
proof (induction "nat (j + 1 - i)" arbitrary: i res w)
  case 0
  then have "\<not> i \<le> j" by simp
  then have "\<not> i * msPerDay \<le> j * msPerDay" by (simp add: msPerDay_def)
  with \<open>\<not> i \<le> j\<close> show ?case by (subst historyLoop.simps) simp
next
  case (Suc n)
  then have le: "i \<le> j" and n: "n = nat (j + 1 - (i + 1))" by simp_all
  from le have le': "i * msPerDay \<le> j * msPerDay" by (simp add: msPerDay_def)
  have u: "[i..j] = i # [i + 1..j]" using le by (rule upto_rec1)
  have step: "addLocalDays (zone w) 1 (i * msPerDay) = (i + 1) * msPerDay"
    using addLocalDays_fixed[OF Suc.prems] by (simp add: algebra_simps)
  have str: "isoString (i * msPerDay) = isoDate i"
    by (simp add: isoString_def msPerDay_def)
  obtain x w' where g: "getHistoricalRates cfg (isoDate i) w = (x, w')"
    by (cases "getHistoricalRates cfg (isoDate i) w")
  then have z: "dstPeriods (zone w') = []"
    using Suc.prems getHistoricalRates_zone[of cfg "isoDate i" w] by simp
  note IH = Suc.hyps(1)[OF n z]
  show ?case
    by (subst historyLoop.simps)
       (simp add: le' u visitDay_def IH Let_def step str g split: sum.splits)
qed

lemma fold_dates:
  "\<exists>ks. map date (fst (foldl (visitDay cfg cur base) (res, w) ds)) = map date res @ map isoDate ks
        \<and> subseq ks ds"
proof (induction ds arbitrary: res w)
  case Nil
  then show ?case by simp
next
  case (Cons d ds)
  obtain res' w' where v: "visitDay cfg cur base (res, w) d = (res', w')"
    by (cases "visitDay cfg cur base (res, w) d")
  from Cons.IH[of res' w'] obtain ks where
    ks: "map date (fst (foldl (visitDay cfg cur base) (res', w') ds)) = map date res' @ map isoDate ks"
      "subseq ks ds" by blast
  have "map date res' = map date res \<or> map date res' = map date res @ [isoDate d]"
    using v by (auto simp: visitDay_def split: prod.splits sum.splits)
  then show ?case
  proof
    assume "map date res' = map date res"
    with ks v show ?thesis by (intro exI[of _ ks]) auto
  next
    assume "map date res' = map date res @ [isoDate d]"
    with ks v show ?thesis by (intro exI[of _ "d # ks"]) simp
  qed
qed

text \<open>
  Where the offset of local time from UTC never changes, \<open>getRateHistory\<close> visits the days
  of the inclusive range in ascending order, one lookup per day: it is the left fold over
  the list of days of the step that appends the point of the day when the lookup succeeds
  and appends nothing, and goes on, when the lookup fails. The dates of the result are the
  dates of a subsequence of the days of the range; from 1970 to 9999 they are strictly
  ascending as strings.
\<close>

lemma getRateHistory_fixed_offset:
  assumes "dstPeriods (zone w) = []"
  shows "getRateHistory cfg opts w
     = foldl (visitDay cfg (currency opts) (baseCurrency opts)) ([], w) [fromDate opts..toDate opts]"
    and "\<exists>ks. map date (fst (getRateHistory cfg opts w)) = map isoDate ks
          \<and> subseq ks [fromDate opts..toDate opts]"
    and "0 \<le> fromDate opts \<Longrightarrow> fst (civil (toDate opts)) \<le> 9999
        \<Longrightarrow> sorted_wrt (<) (map date (fst (getRateHistory cfg opts w)))"
proof -
  show eq: "getRateHistory cfg opts w
     = foldl (visitDay cfg (currency opts) (baseCurrency opts)) ([], w) [fromDate opts..toDate opts]"
    by (simp add: getRateHistory_def historyLoop_fold[OF assms])
  from fold_dates[of cfg "currency opts" "baseCurrency opts" "[]" w "[fromDate opts..toDate opts]"]
  obtain ks where ks: "map date (fst (getRateHistory cfg opts w)) = map isoDate ks"
    "subseq ks [fromDate opts..toDate opts]"
    unfolding eq by auto
  then show "\<exists>ks. map date (fst (getRateHistory cfg opts w)) = map isoDate ks
          \<and> subseq ks [fromDate opts..toDate opts]" by blast
  show "sorted_wrt (<) (map date (fst (getRateHistory cfg opts w)))"
    if a: "0 \<le> fromDate opts" and b: "fst (civil (toDate opts)) \<le> 9999"
    unfolding ks(1) by (rule isoDate_sorted[OF ks(2) a b])
qed

lemma missing_day: "getHistoricalRates bareConfig ''1970-04-11'' historyWorld
    = (Inl (AllHistoricalFailed None), historyWorld)"
  by (simp add: getHistoricalRates_def getCachedRates_def tryReadJSON_historical_def
      historyWorld_def emptyWorld_def managerFetchHistoricalRates_def bareConfig_def
      unreachable_def)

lemma cached_days:
  "getHistoricalRates bareConfig ''1970-04-10'' historyWorld = (Inr seedFixture, historyWorld)"
  "getHistoricalRates bareConfig ''1970-04-12'' historyWorld = (Inr scenarioTable, historyWorld)"
  by (simp_all add: getHistoricalRates_def getCachedRates_def tryReadJSON_historical_def
      historyWorld_def emptyWorld_def)

text \<open>
  On UTC, with the days 99 and 101 cached and no provider for the day between them, the
  range from day 99 to day 101 yields the two cached days, in order, with the rate of the
  table for the pivot base and its inverse for another base.
\<close>

lemma getRateHistory_utc_example:
  "fst (getRateHistory bareConfig
         \<lparr>fromDate = 99, toDate = 101, currency = USD, baseCurrency = SOS\<rparr> historyWorld)
     = [\<lparr>date = ''1970-04-10'', rate = Some 0.00175\<rparr>, \<lparr>date = ''1970-04-12'', rate = Some 0.002\<rparr>]"
  "fst (getRateHistory bareConfig
         \<lparr>fromDate = 99, toDate = 101, currency = USD, baseCurrency = USD\<rparr> historyWorld)
     = [\<lparr>date = ''1970-04-10'', rate = Some (1 / 0.00175)\<rparr>,
        \<lparr>date = ''1970-04-12'', rate = Some (1 / 0.002)\<rparr>]"
proof -
  have days: "[99..101] = [99, 100, 101::int]" by (simp add: upto_rec1)
  have t: "seedFixture USD = Some 0.00175" "scenarioTable USD = Some 0.002"
    by (simp_all add: seedFixture_def scenarioTable_def)
  have z: "dstPeriods (zone historyWorld) = []"
    by (simp add: historyWorld_def emptyWorld_def utcZone_def)
  show "fst (getRateHistory bareConfig
         \<lparr>fromDate = 99, toDate = 101, currency = USD, baseCurrency = SOS\<rparr> historyWorld)
     = [\<lparr>date = ''1970-04-10'', rate = Some 0.00175\<rparr>, \<lparr>date = ''1970-04-12'', rate = Some 0.002\<rparr>]"
    by (simp add: getRateHistory_fixed_offset(1)[OF z] days visitDay_def iso_99_101 missing_day
        cached_days t)
  show "fst (getRateHistory bareConfig
         \<lparr>fromDate = 99, toDate = 101, currency = USD, baseCurrency = USD\<rparr> historyWorld)
     = [\<lparr>date = ''1970-04-10'', rate = Some (1 / 0.00175)\<rparr>,
        \<lparr>date = ''1970-04-12'', rate = Some (1 / 0.002)\<rparr>]"
    by (simp add: getRateHistory_fixed_offset(1)[OF z] days visitDay_def iso_99_101 missing_day
        cached_days t ndiv_def)
qed

text \<open>
  The steps of the loop in New York from 1970-04-25T00:00Z: 24 hours to 1970-04-26T00:00Z,
  then, daylight saving time having begun at 07:00Z, 23 hours to 1970-04-26T23:00Z, and 24
  hours each to 1970-04-27T23:00Z and 1970-04-28T23:00Z.
\<close>

lemma newYork_steps:
  "addLocalDays newYork1970 1 (114 * msPerDay) = 115 * msPerDay"
  "addLocalDays newYork1970 1 (115 * msPerDay) = 116 * msPerDay - msPerHour"
  "addLocalDays newYork1970 1 (116 * msPerDay - msPerHour) = 117 * msPerDay - msPerHour"
  "addLocalDays newYork1970 1 (117 * msPerDay - msPerHour) = 118 * msPerDay - msPerHour"
  by (simp_all add: addLocalDays_def utcOffset_def localOffset_def inDst_def newYork1970_def
      msPerDay_def msPerHour_def Let_def)

lemma newYork_dates:
  "isoString (114 * msPerDay) = ''1970-04-25''"
  "isoString (115 * msPerDay) = ''1970-04-26''"
  "isoString (116 * msPerDay - msPerHour) = ''1970-04-26''"
  "isoString (117 * msPerDay - msPerHour) = ''1970-04-27''"
proof -
  have d: "114 * msPerDay div msPerDay = 114" "115 * msPerDay div msPerDay = 115"
    "(116 * msPerDay - msPerHour) div msPerDay = 115"
    "(117 * msPerDay - msPerHour) div msPerDay = 116"
    by (simp_all add: msPerDay_def msPerHour_def)
  have i: "isoDate 114 = ''1970-04-25''" "isoDate 115 = ''1970-04-26''"
    "isoDate 116 = ''1970-04-27''"
    by code_simp+
  show "isoString (114 * msPerDay) = ''1970-04-25''"
    "isoString (115 * msPerDay) = ''1970-04-26''"
    "isoString (116 * msPerDay - msPerHour) = ''1970-04-26''"
    "isoString (117 * msPerDay - msPerHour) = ''1970-04-27''"
    by (simp_all add: isoString_def d i)
qed

lemma nyWorld_hits:
  "getHistoricalRates cfg ''1970-04-25'' nyWorld = (Inr [USD \<mapsto> 1], nyWorld)"
  "getHistoricalRates cfg ''1970-04-26'' nyWorld = (Inr [USD \<mapsto> 2], nyWorld)"
  "getHistoricalRates cfg ''1970-04-27'' nyWorld = (Inr [USD \<mapsto> 3], nyWorld)"
  "getHistoricalRates cfg ''1970-04-28'' nyWorld = (Inr [USD \<mapsto> 4], nyWorld)"
  by (simp_all add: getHistoricalRates_def getCachedRates_def tryReadJSON_historical_def
      nyWorld_def emptyWorld_def)

lemma nyWorld_zone: "zone nyWorld = newYork1970"
  by (simp add: nyWorld_def)

lemma newYork_order:
  "114 * msPerDay \<le> 117 * msPerDay" "115 * msPerDay \<le> 117 * msPerDay"
  "116 * msPerDay - msPerHour \<le> 117 * msPerDay" "117 * msPerDay - msPerHour \<le> 117 * msPerDay"
  "\<not> 118 * msPerDay - msPerHour \<le> 117 * msPerDay"
  by (simp_all add: msPerDay_def msPerHour_def)

lemma nyWorld_loop:
  "historyLoop cfg USD SOS (114 * msPerDay) (117 * msPerDay) [] nyWorld
     = ([\<lparr>date = ''1970-04-25'', rate = Some 1\<rparr>, \<lparr>date = ''1970-04-26'', rate = Some 2\<rparr>,
         \<lparr>date = ''1970-04-26'', rate = Some 2\<rparr>, \<lparr>date = ''1970-04-27'', rate = Some 3\<rparr>],
        nyWorld)"
proof -
  have l5: "historyLoop cfg USD SOS (118 * msPerDay - msPerHour) (117 * msPerDay) res nyWorld
      = (res, nyWorld)" for res
    by (subst historyLoop.simps) (simp add: newYork_order)
  have l4: "historyLoop cfg USD SOS (117 * msPerDay - msPerHour) (117 * msPerDay) res nyWorld
      = (res @ [\<lparr>date = ''1970-04-27'', rate = Some 3\<rparr>], nyWorld)" for res
    by (subst historyLoop.simps)
       (simp add: newYork_order newYork_dates nyWorld_hits nyWorld_zone newYork_steps Let_def l5)
  have l3: "historyLoop cfg USD SOS (116 * msPerDay - msPerHour) (117 * msPerDay) res nyWorld
      = (res @ [\<lparr>date = ''1970-04-26'', rate = Some 2\<rparr>, \<lparr>date = ''1970-04-27'', rate = Some 3\<rparr>],
         nyWorld)" for res
    by (subst historyLoop.simps)
       (simp add: newYork_order newYork_dates nyWorld_hits nyWorld_zone newYork_steps Let_def l4)
  have l2: "historyLoop cfg USD SOS (115 * msPerDay) (117 * msPerDay) res nyWorld
      = (res @ [\<lparr>date = ''1970-04-26'', rate = Some 2\<rparr>, \<lparr>date = ''1970-04-26'', rate = Some 2\<rparr>,
                \<lparr>date = ''1970-04-27'', rate = Some 3\<rparr>], nyWorld)" for res
    by (subst historyLoop.simps)
       (simp add: newYork_order newYork_dates nyWorld_hits nyWorld_zone newYork_steps Let_def l3)
  show ?thesis
    by (subst historyLoop.simps)
       (simp add: newYork_order newYork_dates nyWorld_hits nyWorld_zone newYork_steps Let_def l2)
qed

text \<open>
  Claim C6. \<open>getRateHistory\<close> is to visit every calendar day of the inclusive range, in
  ascending order. The loop starts at the instant at which the first UTC day begins, names
  each day by the UTC date of the current instant and moves on by one day of local time.
  Where daylight saving time begins within the range that step is 23 hours, and every later
  instant falls in the last hour of the UTC day before the one meant. In New York, the four
  days from 1970-04-25 to 1970-04-28 all being cached, the range from 1970-04-25 to
  1970-04-28 yields 1970-04-25, 1970-04-26, 1970-04-26 again and 1970-04-27: a day is
  visited twice and the last day of the range is not visited.
\<close>

theorem getRateHistory_new_york:
  "fst (getRateHistory bareConfig
         \<lparr>fromDate = 114, toDate = 117, currency = USD, baseCurrency = SOS\<rparr> nyWorld)
     = [\<lparr>date = ''1970-04-25'', rate = Some 1\<rparr>, \<lparr>date = ''1970-04-26'', rate = Some 2\<rparr>,
        \<lparr>date = ''1970-04-26'', rate = Some 2\<rparr>, \<lparr>date = ''1970-04-27'', rate = Some 3\<rparr>]
   \<and> isoDate 114 = ''1970-04-25'' \<and> isoDate 117 = ''1970-04-28''
   \<and> getHistoricalRates bareConfig ''1970-04-28'' nyWorld = (Inr [USD \<mapsto> 4], nyWorld)"
proof -
  have "isoDate 114 = ''1970-04-25''" "isoDate 117 = ''1970-04-28''" by code_simp+
  then show ?thesis
    by (simp add: getRateHistory_def nyWorld_loop nyWorld_hits)
qed
section \<open>Volatility\<close>

lemma simpleReturns_Cons2:
  "simpleReturns (a # b # rest) = (b - a) / a # simpleReturns (b # rest)"
  by (simp add: simpleReturns_def)

lemma simpleReturns_length: "length (simpleReturns hs) = length hs - 1"
  by (simp add: simpleReturns_def)

lemma simpleReturns_nth:
  "i < length hs - 1 \<Longrightarrow> simpleReturns hs ! i = (hs ! Suc i - hs ! i) / hs ! i"
  by (simp add: simpleReturns_def nth_tl)

lemma dailyReturns_Some:
  "\<forall>p\<in>set (butlast hs). p \<noteq> 0 \<Longrightarrow> dailyReturns (map Some hs) = map Some (simpleReturns hs)"
proof (induction hs rule: induct_list012)
  case 1
  then show ?case by (simp add: simpleReturns_def)
next
  case (2 x)
  then show ?case by (simp add: simpleReturns_def)
next
  case (3 a b rest)
  then have "a \<noteq> 0" "\<forall>p\<in>set (butlast (b # rest)). p \<noteq> 0" by simp_all
  with 3 show ?case by (simp add: simpleReturns_Cons2 ndiv_def nsub_def)
qed

lemma foldl_nadd:
  "foldl (\<lambda>sum ret. nadd sum ret) (Some a) (map Some xs) = Some (a + sum_list xs)"
  by (induction xs arbitrary: a) (simp_all add: nadd_def add.assoc)

lemma foldl_squares:
  "foldl (\<lambda>sum ret. nadd sum (nmul (nsub ret (Some m)) (nsub ret (Some m)))) (Some a) (map Some xs)
     = Some (a + (\<Sum>x\<leftarrow>xs. (x - m)\<^sup>2))"
  by (induction xs arbitrary: a) (simp_all add: nadd_def nmul_def nsub_def add.assoc power2_eq_square)

lemma volatilityOf_short: "length history < 2 \<Longrightarrow> volatilityOf history = Some 0"
  by (simp add: volatilityOf_def)

lemma volatilityOf_Some:
  assumes "2 \<le> length hs" "\<forall>p\<in>set (butlast hs). p \<noteq> 0"
  shows "volatilityOf (map Some hs) = Some (populationSD (simpleReturns hs) * sqrt 365)"
proof -
  let ?rs = "simpleReturns hs"
  let ?n = "real (length ?rs)"
  let ?m = "sum_list ?rs / ?n"
  let ?S = "\<Sum>x\<leftarrow>?rs. (x - ?m)\<^sup>2"
  have len: "?n \<noteq> 0" using assms(1) by (simp add: simpleReturns_length)
  have nonneg: "\<not> ?S / ?n < 0"
    unfolding not_less by (intro divide_nonneg_nonneg sum_list_nonneg) auto
  have mean: "ndiv (foldl nadd (Some 0) (map Some ?rs)) (Some ?n) = Some ?m"
    using len by (simp add: foldl_nadd ndiv_def)
  have var: "ndiv (foldl (\<lambda>sum ret. nadd sum (nmul (nsub ret (Some ?m)) (nsub ret (Some ?m))))
                     (Some 0) (map Some ?rs)) (Some ?n) = Some (?S / ?n)"
    using len by (simp add: foldl_squares ndiv_def)
  have root: "nmul (nsqrt (Some (?S / ?n))) (Some (sqrt 365)) = Some (sqrt (?S / ?n) * sqrt 365)"
    using nonneg by (simp add: nsqrt_def nmul_def)
  have "\<not> length (map Some hs) < 2" using assms(1) by simp
  then have "volatilityOf (map Some hs) = nmul (nsqrt (Some (?S / ?n))) (Some (sqrt 365))"
    by (simp only: volatilityOf_def Let_def dailyReturns_Some[OF assms(2)] if_False
        length_map mean var)
  then show ?thesis by (simp only: root populationSD_def)
qed

lemma populationSD_single: "populationSD [r] = 0"
  by (simp add: populationSD_def)

lemma populationSD_zeros: "populationSD (replicate k 0) = 0"
  by (simp add: populationSD_def sum_list_replicate)

lemma simpleReturns_constant: "c \<noteq> 0 \<Longrightarrow> simpleReturns (replicate m c) = replicate (m - 1) 0"
proof (induction m)
  case 0
  then show ?case by (simp add: simpleReturns_def)
next
  case (Suc m)
  then show ?case
    by (cases m) (simp_all add: simpleReturns_def)
qed

lemma getVolatility_history:
  "fst (getVolatility cfg cur (Some n) w) = Inr (volatilityOf (map rate (volatilityWindow cfg cur n w)))"
  by (simp add: getVolatility_def Date_now_def volatilityWindow_def split: prod.splits)

lemma iso_98: "isoDate 98 = ''1970-04-09''"
  by code_simp

lemma priceWorld_zone [simp]: "dstPeriods (zone (priceWorld\<lparr>ticks := k\<rparr>)) = []"
  "dstPeriods (zone priceWorld) = []"
  by (simp_all add: priceWorld_def emptyWorld_def utcZone_def)

lemma priceWorld_clock:
  "addLocalDays (zone priceWorld) 0 (clock priceWorld (Suc (ticks priceWorld))) div msPerDay = 100"
  "addLocalDays (zone priceWorld) (- 1) (clock priceWorld (Suc (ticks priceWorld))) div msPerDay = 99"
  "addLocalDays (zone priceWorld) (- 2) (clock priceWorld (Suc (ticks priceWorld))) div msPerDay = 98"
  "clock priceWorld (ticks priceWorld) div msPerDay = 100"
  by (simp_all add: addLocalDays_fixed) (simp_all add: priceWorld_def emptyWorld_def msPerDay_def)

lemma priceWorld_hits:
  "getHistoricalRates cfg ''1970-04-09'' (priceWorld\<lparr>ticks := k\<rparr>)
     = (Inr [USD \<mapsto> 1], priceWorld\<lparr>ticks := k\<rparr>)"
  "getHistoricalRates cfg ''1970-04-10'' (priceWorld\<lparr>ticks := k\<rparr>)
     = (Inr [USD \<mapsto> 1], priceWorld\<lparr>ticks := k\<rparr>)"
  "getHistoricalRates cfg ''1970-04-11'' (priceWorld\<lparr>ticks := k\<rparr>)
     = (Inr [USD \<mapsto> 2], priceWorld\<lparr>ticks := k\<rparr>)"
  by (simp_all add: getHistoricalRates_def getCachedRates_def tryReadJSON_historical_def
      priceWorld_def emptyWorld_def)

lemma priceWorld_window_1:
  "volatilityWindow bareConfig USD 1 priceWorld
     = [\<lparr>date = ''1970-04-10'', rate = Some 1\<rparr>, \<lparr>date = ''1970-04-11'', rate = Some 2\<rparr>]"
proof -
  have days: "[99..100] = [99, 100::int]" by (simp add: upto_rec1)
  show ?thesis
    by (simp add: volatilityWindow_def priceWorld_clock getRateHistory_def historyLoop_fold
        days visitDay_def iso_99_101 priceWorld_hits)
qed

lemma priceWorld_window_2:
  "volatilityWindow bareConfig USD 2 priceWorld
     = [\<lparr>date = ''1970-04-09'', rate = Some 1\<rparr>, \<lparr>date = ''1970-04-10'', rate = Some 1\<rparr>,
        \<lparr>date = ''1970-04-11'', rate = Some 2\<rparr>]"
proof -
  have days: "[98..100] = [98, 99, 100::int]" by (simp add: upto_rec1)
  show ?thesis
    by (simp add: volatilityWindow_def priceWorld_clock getRateHistory_def historyLoop_fold
        days visitDay_def iso_98 iso_99_101 priceWorld_hits)
qed

lemma priceWorld_window_0:
  "volatilityWindow bareConfig USD 0 priceWorld = [\<lparr>date = ''1970-04-11'', rate = Some 2\<rparr>]"
proof -
  have days: "[100..100] = [100::int]" by (simp add: upto_rec1)
  show ?thesis
    by (simp add: volatilityWindow_def priceWorld_clock getRateHistory_def historyLoop_fold
        days visitDay_def iso_99_101 priceWorld_hits)
qed

lemma emptyWorld_window: "volatilityWindow bareConfig USD 1 emptyWorld = []"
proof -
  have days: "[99..100] = [99, 100::int]" by (simp add: upto_rec1)
  have z [simp]: "dstPeriods (zone (emptyWorld\<lparr>ticks := k\<rparr>)) = []"
    "dstPeriods (zone emptyWorld) = []" for k
    by (simp_all add: emptyWorld_def utcZone_def)
  have c: "addLocalDays (zone emptyWorld) (- 1) (clock emptyWorld (Suc (ticks emptyWorld)))
      div msPerDay = 99"
    "clock emptyWorld (ticks emptyWorld) div msPerDay = 100"
    by (simp_all add: addLocalDays_fixed) (simp_all add: emptyWorld_def msPerDay_def)
  have miss: "getHistoricalRates bareConfig d (emptyWorld\<lparr>ticks := k\<rparr>)
      = (Inl (AllHistoricalFailed None), emptyWorld\<lparr>ticks := k\<rparr>)" for d k
    by (simp add: getHistoricalRates_def getCachedRates_def tryReadJSON_historical_def
        emptyWorld_def managerFetchHistoricalRates_def bareConfig_def unreachable_def)
  show ?thesis
    by (simp add: volatilityWindow_def c getRateHistory_def historyLoop_fold days visitDay_def
        miss)
qed

lemma returns_112: "simpleReturns [1, 1, 2] = [0, 1]"
  by (simp add: simpleReturns_def)

lemma populationSD_01: "populationSD [0, 1] = sqrt (1 / 4)"
  by (simp add: populationSD_def power2_eq_square)

lemma sampleSD_01: "sampleSD [0, 1] = sqrt (1 / 2)"
  by (simp add: sampleSD_def power2_eq_square)

text \<open>
  Claim C4, as the specification states it, fails. For a two-point series with the single
  return \<open>r = 1\<close> the code returns \<open>0\<close>, not \<open>|r| \<times> sqrt 365\<close>; and for the three-point
  series with the returns \<open>0\<close> and \<open>1\<close> it returns the population standard deviation
  \<open>sqrt (1/4)\<close> times \<open>sqrt 365\<close>, not the sample standard deviation \<open>sqrt (1/2)\<close> times
  \<open>sqrt 365\<close>.
\<close>

theorem getVolatility_two_point:
  "map rate (volatilityWindow bareConfig USD 1 priceWorld) = [Some 1, Some 2]
   \<and> fst (getVolatility bareConfig USD (Some 1) priceWorld) = Inr (Some 0)
   \<and> fst (getVolatility bareConfig USD (Some 1) priceWorld)
       \<noteq> Inr (Some (\<bar>(2 - 1) / 1\<bar> * sqrt 365))
   \<and> map rate (volatilityWindow bareConfig USD 2 priceWorld) = [Some 1, Some 1, Some 2]
   \<and> fst (getVolatility bareConfig USD (Some 2) priceWorld) = Inr (Some (sqrt (1 / 4) * sqrt 365))
   \<and> fst (getVolatility bareConfig USD (Some 2) priceWorld)
       \<noteq> Inr (Some (sampleSD [0, 1] * sqrt 365))"
proof -
  have v1: "volatilityOf (map Some [1, 2]) = Some (populationSD (simpleReturns [1, 2]) * sqrt 365)"
    by (intro volatilityOf_Some) simp_all
  have v2: "volatilityOf (map Some [1, 1, 2])
      = Some (populationSD (simpleReturns [1, 1, 2]) * sqrt 365)"
    by (intro volatilityOf_Some) simp_all
  have g1: "fst (getVolatility bareConfig USD (Some 1) priceWorld) = Inr (Some 0)"
    using v1 by (simp add: getVolatility_history priceWorld_window_1 simpleReturns_def
        populationSD_single)
  have g2: "fst (getVolatility bareConfig USD (Some 2) priceWorld)
      = Inr (Some (sqrt (1 / 4) * sqrt 365))"
    using v2 by (simp only: getVolatility_history priceWorld_window_2 returns_112
        populationSD_01) simp
  have "sqrt (1 / 4) \<noteq> sqrt (1 / 2)" by simp
  then have ne: "sqrt (1 / 4) * sqrt 365 \<noteq> sampleSD [0, 1] * sqrt 365"
    by (simp add: sampleSD_01)
  show ?thesis
    using g1 g2 ne by (simp add: priceWorld_window_1 priceWorld_window_2)
qed

text \<open>
  Claim C4, amended. \<open>getVolatility\<close> returns the population standard deviation (squared
  deviations divided by the number of returns) of the daily simple returns
  \<open>r\<^sub>i = (rate\<^sub>i - rate\<^sub>i\<^sub>-\<^sub>1) / rate\<^sub>i\<^sub>-\<^sub>1\<close> over the trailing window, multiplied by \<open>sqrt 365\<close>.
  A two-point series yields \<open>0\<close>, a constant series yields \<open>0\<close>, and fewer than two data
  points yield \<open>0\<close>. The rates are finite and the rate of every day but the last is not zero.
\<close>

theorem getVolatility_population:
  "fst (getVolatility cfg cur (Some n) w) = Inr (volatilityOf (map rate (volatilityWindow cfg cur n w)))
   \<and> (length (volatilityWindow cfg cur n w) < 2
        \<longrightarrow> fst (getVolatility cfg cur (Some n) w) = Inr (Some 0))
   \<and> (map rate (volatilityWindow cfg cur n w) = map Some hs \<and> 2 \<le> length hs
        \<and> (\<forall>p\<in>set (butlast hs). p \<noteq> 0)
        \<longrightarrow> fst (getVolatility cfg cur (Some n) w)
            = Inr (Some (populationSD (simpleReturns hs) * sqrt 365)))
   \<and> (map rate (volatilityWindow cfg cur n w) = [Some a, Some b] \<and> a \<noteq> 0
        \<longrightarrow> fst (getVolatility cfg cur (Some n) w) = Inr (Some 0))
   \<and> (map rate (volatilityWindow cfg cur n w) = replicate m (Some c) \<and> c \<noteq> 0
        \<longrightarrow> fst (getVolatility cfg cur (Some n) w) = Inr (Some 0))"
proof (intro conjI impI)
  show "fst (getVolatility cfg cur (Some n) w)
      = Inr (volatilityOf (map rate (volatilityWindow cfg cur n w)))"
    by (rule getVolatility_history)
next
  assume "length (volatilityWindow cfg cur n w) < 2"
  then show "fst (getVolatility cfg cur (Some n) w) = Inr (Some 0)"
    by (simp add: getVolatility_history volatilityOf_short)
next
  assume "map rate (volatilityWindow cfg cur n w) = map Some hs \<and> 2 \<le> length hs
        \<and> (\<forall>p\<in>set (butlast hs). p \<noteq> 0)"
  then show "fst (getVolatility cfg cur (Some n) w)
            = Inr (Some (populationSD (simpleReturns hs) * sqrt 365))"
    by (simp add: getVolatility_history volatilityOf_Some)
next
  assume a: "map rate (volatilityWindow cfg cur n w) = [Some a, Some b] \<and> a \<noteq> 0"
  have "volatilityOf (map Some [a, b]) = Some (populationSD (simpleReturns [a, b]) * sqrt 365)"
    using a by (intro volatilityOf_Some) simp_all
  then show "fst (getVolatility cfg cur (Some n) w) = Inr (Some 0)"
    using a by (simp add: getVolatility_history simpleReturns_def populationSD_single)
next
  assume a: "map rate (volatilityWindow cfg cur n w) = replicate m (Some c) \<and> c \<noteq> 0"
  show "fst (getVolatility cfg cur (Some n) w) = Inr (Some 0)"
  proof (cases "m < 2")
    case True
    with a have "length (map rate (volatilityWindow cfg cur n w)) < 2" by simp
    then show ?thesis by (simp add: getVolatility_history volatilityOf_short del: length_map)
  next
    case False
    have r: "replicate m (Some c) = map Some (replicate m c)" by simp
    have "volatilityOf (map Some (replicate m c))
        = Some (populationSD (simpleReturns (replicate m c)) * sqrt 365)"
      using a False by (intro volatilityOf_Some) (auto dest: in_set_butlastD)
    then show ?thesis
      using a by (simp add: getVolatility_history r simpleReturns_constant populationSD_zeros
          del: map_replicate)
  qed
qed


theorem getVolatility_population_witness:
  "fst (getVolatility bareConfig USD (Some 2) priceWorld)
      = Inr (Some (populationSD [0, 1] * sqrt 365))
   \<and> fst (getVolatility bareConfig USD (Some 1) priceWorld) = Inr (Some 0)
   \<and> fst (getVolatility bareConfig USD (Some 0) priceWorld) = Inr (Some 0)
   \<and> fst (getVolatility bareConfig USD (Some 1) emptyWorld) = Inr (Some 0)"
proof -
  note general = getVolatility_population[of bareConfig USD 2 priceWorld "[1, 1, 2]",
      THEN conjunct2, THEN conjunct2, THEN conjunct1, rule_format]
  note twoPoint = getVolatility_population[of bareConfig USD 1 priceWorld _ 1 2,
      THEN conjunct2, THEN conjunct2, THEN conjunct2, THEN conjunct1, rule_format]
  note steadyRate = getVolatility_population[of bareConfig USD 0 priceWorld _ _ _ 1 2,
      THEN conjunct2, THEN conjunct2, THEN conjunct2, THEN conjunct2, rule_format]
  note short = getVolatility_population[of bareConfig USD 1 emptyWorld,
      THEN conjunct2, THEN conjunct1, rule_format]
  have "fst (getVolatility bareConfig USD (Some 2) priceWorld)
      = Inr (Some (populationSD (simpleReturns [1, 1, 2]) * sqrt 365))"
    by (rule general) (simp add: priceWorld_window_2)
  moreover have "fst (getVolatility bareConfig USD (Some 1) priceWorld) = Inr (Some 0)"
    by (rule twoPoint) (simp add: priceWorld_window_1)
  moreover have "fst (getVolatility bareConfig USD (Some 0) priceWorld) = Inr (Some 0)"
    by (rule steadyRate) (simp add: priceWorld_window_0)
  moreover have "fst (getVolatility bareConfig USD (Some 1) emptyWorld) = Inr (Some 0)"
    by (rule short) (simp add: emptyWorld_window)
  ultimately show ?thesis by (simp only: returns_112)
qed

end
